theory Spec2Isabelle
  imports Main
begin

section \<open>Python values used by the wrapper modules\<close>

text \<open>
  Exceptions are values: a function that can raise returns \<open>error + 'a\<close>, with
  \<open>Inl\<close> for the exception that leaves it.
\<close>

datatype error =
    ValueError
  | TypeError
  | KeyError
  | AttributeError
  | AssertionError
  | RuntimeError string
  | SystemExit int

subsection \<open>Strings\<close>

text \<open>
  \<open>s.split(sep)\<close> for a one-character separator: cuts at every occurrence, and the
  result always has one more element than there are separators (so it is never empty).
\<close>

fun split_on :: "char \<Rightarrow> string \<Rightarrow> string list" where
  "split_on c [] = [[]]"
| "split_on c (x # xs) =
     (if x = c then [] # split_on c xs
      else (x # hd (split_on c xs)) # tl (split_on c xs))"

text \<open>
  \<open>int(s)\<close> for a string: white space is stripped on both sides, one sign may follow,
  then decimal digits, where single underscores may stand between two digits. Characters are
  the code points below 256; the ones that \<open>int\<close> strips are tab, line feed, vertical
  tab, form feed, carriage return, space, U+0085 and U+00A0 (the separators U+001C to U+001F
  are not stripped). A literal of more than 4300 digits is refused (the interpreter's
  limit). Anything that is refused raises \<open>ValueError\<close>.
\<close>

definition py_isspace :: "char \<Rightarrow> bool" where
  "py_isspace c = (of_char c \<in> set [9, 10, 11, 12, 13, 32, 133, 160 :: nat])"

definition py_strip :: "string \<Rightarrow> string" where
  "py_strip s = rev (dropWhile py_isspace (rev (dropWhile py_isspace s)))"

definition is_digit :: "char \<Rightarrow> bool" where
  "is_digit c = (48 \<le> (of_char c :: nat) \<and> (of_char c :: nat) \<le> 57)"

definition digit_val :: "char \<Rightarrow> nat" where
  "digit_val c = of_char c - 48"

fun digits_value :: "nat \<Rightarrow> string \<Rightarrow> nat option" where
  "digits_value acc [] = Some acc"
| "digits_value acc [c] = (if is_digit c then Some (10 * acc + digit_val c) else None)"
| "digits_value acc (c # d # cs) =
     (if is_digit c then digits_value (10 * acc + digit_val c) (d # cs)
      else if c = CHR ''_'' \<and> is_digit d then digits_value acc (d # cs)
      else None)"

definition py_int :: "string \<Rightarrow> error + int" where
  "py_int s =
     (let t = py_strip s;
          neg = (t \<noteq> [] \<and> hd t = CHR ''-'');
          body = (if t \<noteq> [] \<and> (hd t = CHR ''-'' \<or> hd t = CHR ''+'') then tl t else t)
      in if body = [] then Inl ValueError
         else if \<not> is_digit (hd body) then Inl ValueError
         else if length (filter is_digit body) > 4300 then Inl ValueError
         else (case digits_value 0 body of
                 None \<Rightarrow> Inl ValueError
               | Some n \<Rightarrow> Inr (if neg then - int n else int n)))"

text \<open>The truth value of a string or \<open>None\<close>: only a non-empty string is true.\<close>

definition str_truthy :: "string option \<Rightarrow> bool" where
  "str_truthy i = (case i of None \<Rightarrow> False | Some s \<Rightarrow> s \<noteq> [])"

subsection \<open>Dictionaries that keep insertion order\<close>

text \<open>
  \<open>d[k] = v\<close> on an ordered dictionary: an existing key keeps its position, a new key
  goes to the end. \<open>d.pop(k)\<close> removes the key and returns its value, \<open>KeyError\<close> when
  the key is missing.
\<close>

type_synonym 'v dict = "(string \<times> 'v) list"

fun dict_set :: "string \<Rightarrow> 'v \<Rightarrow> 'v dict \<Rightarrow> 'v dict" where
  "dict_set k v [] = [(k, v)]"
| "dict_set k v (p # d) = (if fst p = k then (k, v) # d else p # dict_set k v d)"

definition dict_pop :: "string \<Rightarrow> 'v dict \<Rightarrow> error + ('v \<times> 'v dict)" where
  "dict_pop k d =
     (case map_of d k of
        None \<Rightarrow> Inl KeyError
      | Some v \<Rightarrow> Inr (v, filter (\<lambda>p. fst p \<noteq> k) d))"


section \<open>The layer graph (esnet\_x0\_5\_imagenet/model.py)\<close>

text \<open>
  \<open>parse_pattern_str\<close> walks from the root through whatever \<open>getattr\<close> finds, so the
  objects of the model are layers and the other Python values that a layer can hold as an
  attribute.

  A layer is an object of the host framework with an ordered dictionary \<open>_sub_layers\<close>
  of named children, which are layers, and with other attributes. Three classes of layer
  behave differently under the operations that \<open>parse_pattern_str\<close>, \<open>set_identity\<close>
  and \<open>upgrade_sublayer\<close> apply:
  \<^item> \<open>Container\<close>: the framework's sequence container \<open>nn.Sequential\<close>, as
    \<open>ESNet.blocks\<close>. It defines \<open>__len__\<close> (the number of children), \<open>__getitem__\<close>
    and \<open>__setitem__\<close>; with a string key, \<open>__getitem__\<close> reads the entry of
    \<open>_sub_layers\<close> under that key, and \<open>__setitem__\<close> asserts that the value is a layer
    and does \<open>setattr\<close> with the key. Since it defines \<open>__len__\<close> and no
    \<open>__bool__\<close>, an empty container is false.
  \<^item> \<open>Plain\<close>: any other layer (\<open>ConvBNLayer\<close>, \<open>Conv2D\<close>, ...): no \<open>__len__\<close>, no
    item access, always true.
  \<^item> \<open>IdentityCls\<close>: the class \<open>Identity\<close> of the module, a plain layer.
  The payload \<open>'a\<close> stands for what else tells two layers apart (the class, the weights).
  The framework's other containers (\<open>LayerList\<close>, \<open>LayerDict\<close>), which the module does
  not use, are not modelled.

  \<open>attrs\<close> lists the attributes of a layer that are not sub-layers, each with the
  place where the object keeps it: in the instance (\<open>self.res_dict\<close>, \<open>self.if_act\<close>),
  in the class (a method, a constant of the class; not a property), in the dictionary
  \<open>_parameters\<close> or in the dictionary \<open>_buffers\<close>. An attribute whose value is
  \<open>None\<close> (\<open>self.pruner\<close>) is left out: \<open>getattr(parent_layer, name, None)\<close> does not tell
  it from a missing one.

  The values that are not layers are dictionaries with string keys (\<open>res_dict\<close>) and
  opaque values, which no operation here can change (a number, a string, a method, a
  list, a tensor). An opaque value is given by its behaviour: its truth value and its
  length (or the exception that \<open>bool\<close> and \<open>len\<close> raise), and the exceptions that item
  access, item assignment and attribute assignment raise. \<open>fields\<close> lists the attributes
  of a value that is not a layer.

  The graph is taken to be a tree: no object is reached by two paths from the root (so the
  dictionary \<open>_sub_layers\<close> itself and the \<open>__self__\<close> of a bound method, which lead
  back into the graph, are not listed as attributes). A value of the model then stands for
  the object and everything below it, and the place of an object is the path to it.
\<close>

datatype 'a cls = Plain 'a | Container 'a | IdentityCls

datatype storage = InInstance | InClass | InParameters | InBuffers

datatype behaviour =
  Behaviour (truth: "error + bool") (len_of: "error + int")
    (getitem_error: error) (setitem_error: error) (setattr_error: error)

datatype 'a obj =
    Layer (cls: "'a cls") (attrs: "(string \<times> storage \<times> 'a obj) list")
      (sub_layers: "(string \<times> 'a obj) list")
  | Dict (fields: "(string \<times> 'a obj) list") (items: "(string \<times> 'a obj) list")
  | Opaque (behaviour: behaviour) (fields: "(string \<times> 'a obj) list")
where
  "sub_layers (Dict fs its) = []"
| "sub_layers (Opaque b fs) = []"
| "attrs (Dict fs its) = []"
| "attrs (Opaque b fs) = []"

text \<open>
  \<open>Identity()\<close>: a new layer of the class \<open>Identity\<close>, without children. Its
  \<open>__init__\<close> sets no attribute, and the methods it has from its class are not listed.
\<close>

definition Identity :: "'a obj" where
  "Identity = Layer IdentityCls [] []"

definition is_layer :: "'a obj \<Rightarrow> bool" where
  "is_layer l = (case l of Layer c as subs \<Rightarrow> True | _ \<Rightarrow> False)"

definition is_container :: "'a obj \<Rightarrow> bool" where
  "is_container l = (case l of Layer (Container x) as subs \<Rightarrow> True | _ \<Rightarrow> False)"

text \<open>The first attribute of a layer under a name that is kept in one of the given places.\<close>

definition lookup_in ::
  "storage list \<Rightarrow> (string \<times> storage \<times> 'a obj) list \<Rightarrow> string \<Rightarrow> 'a obj option"
where
  "lookup_in places as key =
     map_option (\<lambda>p. snd (snd p)) (find (\<lambda>p. fst p = key \<and> fst (snd p) \<in> set places) as)"

text \<open>
  \<open>getattr(l, name, None)\<close>. On a layer the ordinary lookup comes first (the instance,
  then the class), and the layer's \<open>__getattr__\<close> after it, which reads \<open>_parameters\<close>,
  then \<open>_sub_layers\<close>, then \<open>_buffers\<close>.
\<close>

definition py_getattr :: "'a obj \<Rightarrow> string \<Rightarrow> 'a obj option" where
  "py_getattr l key =
     (case l of
        Layer c as subs \<Rightarrow>
          (case lookup_in [InInstance] as key of
             Some v \<Rightarrow> Some v
           | None \<Rightarrow>
               (case lookup_in [InClass] as key of
                  Some v \<Rightarrow> Some v
                | None \<Rightarrow>
                    (case lookup_in [InParameters] as key of
                       Some v \<Rightarrow> Some v
                     | None \<Rightarrow>
                         (case map_of subs key of
                            Some v \<Rightarrow> Some v
                          | None \<Rightarrow> lookup_in [InBuffers] as key))))
      | Dict fs its \<Rightarrow> map_of fs key
      | Opaque b fs \<Rightarrow> map_of fs key)"

text \<open>\<open>bool(l)\<close>, as \<open>if ... and target_layer:\<close> computes it\<close>

definition py_bool :: "'a obj \<Rightarrow> error + bool" where
  "py_bool l =
     (case l of
        Layer c as subs \<Rightarrow> Inr (if is_container l then subs \<noteq> [] else True)
      | Dict fs its \<Rightarrow> Inr (its \<noteq> [])
      | Opaque b fs \<Rightarrow> truth b)"

text \<open>\<open>len(l)\<close>\<close>

definition py_len :: "'a obj \<Rightarrow> error + int" where
  "py_len l =
     (case l of
        Layer c as subs \<Rightarrow> if is_container l then Inr (int (length subs)) else Inl TypeError
      | Dict fs its \<Rightarrow> Inr (int (length its))
      | Opaque b fs \<Rightarrow> len_of b)"

text \<open>\<open>l[key]\<close> with a string key\<close>

definition py_getitem :: "'a obj \<Rightarrow> string \<Rightarrow> error + 'a obj" where
  "py_getitem l key =
     (case l of
        Layer c as subs \<Rightarrow>
          if is_container l
          then (case map_of subs key of None \<Rightarrow> Inl KeyError | Some e \<Rightarrow> Inr e)
          else Inl TypeError
      | Dict fs its \<Rightarrow> (case map_of its key of None \<Rightarrow> Inl KeyError | Some e \<Rightarrow> Inr e)
      | Opaque b fs \<Rightarrow> Inl (getitem_error b))"

text \<open>
  \<open>setattr(l, name, v)\<close>. The \<open>__setattr__\<close> of a layer: the name of a parameter
  raises \<open>TypeError\<close>. Otherwise, for a value \<open>v\<close> that is a layer, the name is removed
  from the instance and from \<open>_buffers\<close>, and the entry of \<open>_sub_layers\<close> is assigned
  (a new name goes to the end). For a value that is not a layer (and not \<open>None\<close>, a
  parameter or a tensor, which have branches of their own), the name of a sub-layer or of
  a buffer raises \<open>TypeError\<close>, and any other name becomes an attribute of the instance.
  A dictionary has no attribute to assign; an opaque value raises its exception.
\<close>

definition py_setattr :: "'a obj \<Rightarrow> string \<Rightarrow> 'a obj \<Rightarrow> error + 'a obj" where
  "py_setattr l key v =
     (case l of
        Layer c as subs \<Rightarrow>
          if lookup_in [InParameters] as key \<noteq> None then Inl TypeError
          else if is_layer v then
            Inr (Layer c
                   (filter (\<lambda>p. \<not> (fst p = key \<and> fst (snd p) \<in> set [InInstance, InBuffers])) as)
                   (dict_set key v subs))
          else if key \<in> set (map fst subs) then Inl TypeError
          else if lookup_in [InBuffers] as key \<noteq> None then Inl TypeError
          else
            Inr (Layer c
                   ((key, InInstance, v)
                      # filter (\<lambda>p. \<not> (fst p = key \<and> fst (snd p) = InInstance)) as)
                   subs)
      | Dict fs its \<Rightarrow> Inl AttributeError
      | Opaque b fs \<Rightarrow> Inl (setattr_error b))"

text \<open>\<open>l[key] = v\<close> with a string key\<close>

definition py_setitem :: "'a obj \<Rightarrow> string \<Rightarrow> 'a obj \<Rightarrow> error + 'a obj" where
  "py_setitem l key v =
     (case l of
        Layer c as subs \<Rightarrow>
          if is_container l
          then (if is_layer v then py_setattr l key v else Inl AssertionError)
          else Inl TypeError
      | Dict fs its \<Rightarrow> Inr (Dict fs (dict_set key v its))
      | Opaque b fs \<Rightarrow> Inl (setitem_error b))"

text \<open>The children of a layer replaced; what is not a layer has none.\<close>

definition map_sub_layers ::
  "((string \<times> 'a obj) list \<Rightarrow> (string \<times> 'a obj) list) \<Rightarrow> 'a obj \<Rightarrow> 'a obj"
where
  "map_sub_layers f l = (case l of Layer c as subs \<Rightarrow> Layer c as (f subs) | _ \<Rightarrow> l)"

subsection \<open>parse\_pattern\_str\<close>

text \<open>One entry of the list that \<open>parse_pattern_str\<close> returns.\<close>

datatype 'a layer_dict =
  LayerDict (layer: "'a obj") (name: string) (index: "string option")

text \<open>
  The head of the loop body: the name and the index of one segment.
  \<^verbatim>\<open>
  if '[' in pattern_list[0]:
      target_layer_name = pattern_list[0].split('[')[0]
      target_layer_index = pattern_list[0].split('[')[1].split(']')[0]
  else:
      target_layer_name = pattern_list[0]
      target_layer_index = None
  \<close>
\<close>

definition parse_segment :: "string \<Rightarrow> string \<times> string option" where
  "parse_segment seg =
     (if CHR ''['' \<in> set seg
      then (hd (split_on CHR ''['' seg),
            Some (hd (split_on CHR '']'' (split_on CHR ''['' seg ! 1))))
      else (seg, None))"

text \<open>
  The index part of the loop body; \<open>Inr None\<close> is the \<open>return None\<close>. The message of
  the rejecting branch is an f-string that holds \<open>len(target_layer)\<close>, so the length is
  taken there too, also for a negative index.
  \<^verbatim>\<open>
  if target_layer_index and target_layer:
      if int(target_layer_index) < 0 or int(target_layer_index) >= len(target_layer):
          msg = f"Not found layer by index('{target_layer_index}') specifed in
                  pattern('{pattern}'). The index should < {len(target_layer)} and > 0."
          return None
      target_layer = target_layer[target_layer_index]
  \<close>
\<close>

definition index_layer :: "'a obj \<Rightarrow> string option \<Rightarrow> error + 'a obj option" where
  "index_layer target_layer target_layer_index =
     (if str_truthy target_layer_index then
        (case py_bool target_layer of
           Inl e \<Rightarrow> Inl e
         | Inr False \<Rightarrow> Inr (Some target_layer)
         | Inr True \<Rightarrow>
             (case py_int (the target_layer_index) of
                Inl e \<Rightarrow> Inl e
              | Inr i \<Rightarrow>
                  (case py_len target_layer of
                     Inl e \<Rightarrow> Inl e
                   | Inr n \<Rightarrow>
                       if i < 0 \<or> i \<ge> n then Inr None
                       else (case py_getitem target_layer (the target_layer_index) of
                               Inl e \<Rightarrow> Inl e
                             | Inr l \<Rightarrow> Inr (Some l)))))
      else Inr (Some target_layer))"

text \<open>The \<open>while pattern_list:\<close> loop, with \<open>layer_list\<close> as its accumulator.\<close>

fun parse_loop ::
  "string list \<Rightarrow> 'a obj \<Rightarrow> 'a layer_dict list \<Rightarrow> error + 'a layer_dict list option"
where
  "parse_loop [] parent_layer layer_list = Inr (Some layer_list)"
| "parse_loop (seg # pattern_list) parent_layer layer_list =
     (case py_getattr parent_layer (fst (parse_segment seg)) of
        None \<Rightarrow> Inr None
      | Some target_layer \<Rightarrow>
          (case index_layer target_layer (snd (parse_segment seg)) of
             Inl e \<Rightarrow> Inl e
           | Inr None \<Rightarrow> Inr None
           | Inr (Some target) \<Rightarrow>
               parse_loop pattern_list target
                 (layer_list @
                    [LayerDict target (fst (parse_segment seg)) (snd (parse_segment seg))])))"

definition parse_pattern_str ::
  "string \<Rightarrow> 'a obj \<Rightarrow> error + 'a layer_dict list option"
where
  "parse_pattern_str pattern parent_layer =
     (let pattern_list = split_on CHR ''.'' pattern
      in if pattern_list = [] then Inr None
         else parse_loop pattern_list parent_layer [])"

subsection \<open>set\_identity\<close>

text \<open>
  The first loop of \<open>set_identity\<close>, over the names of \<open>parent_layer._sub_layers\<close>;
  the dictionary and the flag \<open>stop_after\<close> are its state.
  \<^verbatim>\<open>
  for sub_layer_name in parent_layer._sub_layers:
      if stop_after:
          parent_layer._sub_layers[sub_layer_name] = Identity()
          continue
      if sub_layer_name == layer_name:
          stop_after = True
  \<close>
\<close>

fun set_identity_names ::
  "string list \<Rightarrow> string \<Rightarrow> bool \<Rightarrow> 'a obj dict \<Rightarrow> bool \<times> 'a obj dict"
where
  "set_identity_names [] layer_name stop_after subs = (stop_after, subs)"
| "set_identity_names (sub_layer_name # ks) layer_name stop_after subs =
     (if stop_after then set_identity_names ks layer_name True (dict_set sub_layer_name Identity subs)
      else if sub_layer_name = layer_name then set_identity_names ks layer_name True subs
      else set_identity_names ks layer_name False subs)"

text \<open>
  The second loop, over the keys of the named child; the child and the flag are its state.
  The assignment is an item assignment on the child, a \<open>TypeError\<close> when the child is
  not a container.
  \<^verbatim>\<open>
  for sub_layer_index in parent_layer._sub_layers[layer_name]._sub_layers:
      if stop_after:
          parent_layer._sub_layers[layer_name][sub_layer_index] = Identity()
          continue
      if layer_index == sub_layer_index:
          stop_after = True
  \<close>
\<close>

fun set_identity_indices ::
  "string list \<Rightarrow> string \<Rightarrow> bool \<Rightarrow> 'a obj \<Rightarrow> error + (bool \<times> 'a obj)"
where
  "set_identity_indices [] layer_index stop_after child = Inr (stop_after, child)"
| "set_identity_indices (sub_layer_index # ks) layer_index stop_after child =
     (if stop_after then
        (case py_setitem child sub_layer_index Identity of
           Inl e \<Rightarrow> Inl e
         | Inr child' \<Rightarrow> set_identity_indices ks layer_index True child')
      else if layer_index = sub_layer_index then set_identity_indices ks layer_index True child
      else set_identity_indices ks layer_index False child)"

text \<open>
  \<open>set_identity\<close> returns the parent as it has mutated it, and its boolean result. The
  child that the second loop mutates is the object under \<open>layer_name\<close> in
  \<open>_sub_layers\<close>, so the mutated child stands under that name in the result. Only a
  layer has the attribute \<open>_sub_layers\<close>.
\<close>

definition set_identity ::
  "'a obj \<Rightarrow> string \<Rightarrow> string option \<Rightarrow> error + ('a obj \<times> bool)"
where
  "set_identity parent_layer layer_name layer_index =
     (if \<not> is_layer parent_layer then Inl AttributeError
      else
        (case set_identity_names (map fst (sub_layers parent_layer)) layer_name False
                (sub_layers parent_layer) of
           (stop_after, subs) \<Rightarrow>
             if str_truthy layer_index \<and> stop_after then
               (case map_of subs layer_name of
                  None \<Rightarrow> Inl KeyError
                | Some child \<Rightarrow>
                    if \<not> is_layer child then Inl AttributeError
                    else
                      (case set_identity_indices (map fst (sub_layers child)) (the layer_index)
                              False child of
                         Inl e \<Rightarrow> Inl e
                       | Inr (found, child') \<Rightarrow>
                           Inr (map_sub_layers (\<lambda>d. dict_set layer_name child' subs) parent_layer,
                                found)))
             else Inr (map_sub_layers (\<lambda>d. subs) parent_layer, stop_after)))"

subsection \<open>Objects reached through the list of parse\_pattern\_str\<close>

text \<open>
  \<open>layer_list[k]["layer"]\<close> is the object that \<open>parse_pattern_str\<close> reached at step
  \<open>k\<close>: what \<open>getattr\<close> finds in the step's parent under the step's name, or, when the
  step has an index and that object is true, the item of that object under the index. A
  caller that mutates this object mutates the graph of the root; on values, the mutated
  object is put back at the place the step names. \<open>replace_attr\<close> and \<open>replace_item\<close>
  put a value at the place where \<open>getattr\<close> and the item access find one; they stand for
  no operation of the program.
\<close>

fun replace_first ::
  "string \<Rightarrow> storage \<Rightarrow> 'a obj \<Rightarrow> (string \<times> storage \<times> 'a obj) list
     \<Rightarrow> (string \<times> storage \<times> 'a obj) list"
where
  "replace_first attr s new [] = []"
| "replace_first attr s new (p # as) =
     (if fst p = attr \<and> fst (snd p) = s then (attr, s, new) # as
      else p # replace_first attr s new as)"

definition replace_attr :: "'a obj \<Rightarrow> string \<Rightarrow> 'a obj \<Rightarrow> 'a obj" where
  "replace_attr parent attr new =
     (case parent of
        Layer c as subs \<Rightarrow>
          (case find (\<lambda>s. lookup_in [s] as attr \<noteq> None) [InInstance, InClass, InParameters] of
             Some s \<Rightarrow> Layer c (replace_first attr s new as) subs
           | None \<Rightarrow>
               if attr \<in> set (map fst subs) then Layer c as (dict_set attr new subs)
               else Layer c (replace_first attr InBuffers new as) subs)
      | Dict fs its \<Rightarrow> Dict (dict_set attr new fs) its
      | Opaque b fs \<Rightarrow> Opaque b (dict_set attr new fs))"

definition replace_item :: "'a obj \<Rightarrow> string \<Rightarrow> 'a obj \<Rightarrow> 'a obj" where
  "replace_item c key new =
     (case c of
        Layer k as subs \<Rightarrow> Layer k as (dict_set key new subs)
      | Dict fs its \<Rightarrow> Dict fs (dict_set key new its)
      | Opaque b fs \<Rightarrow> c)"

definition store_back :: "'a obj \<Rightarrow> 'a layer_dict \<Rightarrow> 'a obj \<Rightarrow> 'a obj" where
  "store_back parent d new =
     (case py_getattr parent (name d) of
        None \<Rightarrow> parent
      | Some c \<Rightarrow>
          if str_truthy (index d) \<and> py_bool c = Inr True
          then replace_attr parent (name d) (replace_item c (the (index d)) new)
          else replace_attr parent (name d) new)"

fun store_path :: "'a obj \<Rightarrow> 'a layer_dict list \<Rightarrow> 'a obj \<Rightarrow> 'a obj" where
  "store_path root [] new = new"
| "store_path root (d # ds) new = store_back root d (store_path (layer d) ds new)"

subsection \<open>TheseusLayer.stop\_after\<close>

text \<open>
  The loop of \<open>stop_after\<close>. Each round truncates \<open>parent_layer\<close> and goes on with the
  object of the step, \<open>parent_layer = layer_dict["layer"]\<close>; what the later rounds do
  to that object is stored back into the parent.
  \<^verbatim>\<open>
  parent_layer = self
  for layer_dict in layer_list:
      name, index = layer_dict["name"], layer_dict["index"]
      if not set_identity(parent_layer, name, index):
          return False
      parent_layer = layer_dict["layer"]
  return True
  \<close>
\<close>

fun stop_after_loop :: "'a obj \<Rightarrow> 'a layer_dict list \<Rightarrow> error + ('a obj \<times> bool)" where
  "stop_after_loop parent_layer [] = Inr (parent_layer, True)"
| "stop_after_loop parent_layer (layer_dict # layer_list) =
     (case set_identity parent_layer (name layer_dict) (index layer_dict) of
        Inl e \<Rightarrow> Inl e
      | Inr (parent1, ok) \<Rightarrow>
          if \<not> ok then Inr (parent1, False)
          else (case stop_after_loop (layer layer_dict) layer_list of
                  Inl e \<Rightarrow> Inl e
                | Inr (child', res) \<Rightarrow> Inr (store_back parent1 layer_dict child', res)))"

text \<open>\<open>stop_after\<close> returns the root as it has mutated it, and its boolean result.\<close>

definition stop_after :: "'a obj \<Rightarrow> string \<Rightarrow> error + ('a obj \<times> bool)" where
  "stop_after self stop_layer_name =
     (case parse_pattern_str stop_layer_name self of
        Inl e \<Rightarrow> Inl e
      | Inr None \<Rightarrow> Inr (self, False)
      | Inr (Some layer_list) \<Rightarrow>
          if layer_list = [] then Inr (self, False) else stop_after_loop self layer_list)"

subsection \<open>TheseusLayer.upgrade\_sublayer\<close>

text \<open>
  The body of the loop for one pattern whose \<open>layer_list\<close> is not empty: the new parent.
  \<^verbatim>\<open>
  sub_layer_parent = layer_list[-2]["layer"] if len(layer_list) > 1 else self
  sub_layer = layer_list[-1]["layer"]
  sub_layer_name = layer_list[-1]["name"]
  sub_layer_index = layer_list[-1]["index"]
  new_sub_layer = handle_func(sub_layer, pattern)
  if sub_layer_index:
      getattr(sub_layer_parent, sub_layer_name)[sub_layer_index] = new_sub_layer
  else:
      setattr(sub_layer_parent, sub_layer_name, new_sub_layer)
  \<close>
  \<open>handle_func\<close> is a function from an object and the pattern to an object. The item
  assignment changes the object under \<open>sub_layer_name\<close> in place; on values, the
  changed object is put back under that name.
\<close>

definition sub_layer_parent :: "'a obj \<Rightarrow> 'a layer_dict list \<Rightarrow> 'a obj" where
  "sub_layer_parent self layer_list =
     (if length layer_list > 1 then layer (layer_list ! (length layer_list - 2)) else self)"

definition replace_in_parent ::
  "'a obj \<Rightarrow> string \<Rightarrow> string option \<Rightarrow> 'a obj \<Rightarrow> error + 'a obj"
where
  "replace_in_parent parent sub_layer_name sub_layer_index new_sub_layer =
     (if str_truthy sub_layer_index then
        (case py_getattr parent sub_layer_name of
           None \<Rightarrow> Inl AttributeError
         | Some container \<Rightarrow>
             (case py_setitem container (the sub_layer_index) new_sub_layer of
                Inl e \<Rightarrow> Inl e
              | Inr container' \<Rightarrow> Inr (replace_attr parent sub_layer_name container')))
      else py_setattr parent sub_layer_name new_sub_layer)"

definition upgrade_one ::
  "'a obj \<Rightarrow> string \<Rightarrow> ('a obj \<Rightarrow> string \<Rightarrow> 'a obj) \<Rightarrow> 'a layer_dict list \<Rightarrow> error + 'a obj"
where
  "upgrade_one self pattern handle_func layer_list =
     (case replace_in_parent (sub_layer_parent self layer_list)
             (name (last layer_list)) (index (last layer_list))
             (handle_func (layer (last layer_list)) pattern) of
        Inl e \<Rightarrow> Inl e
      | Inr parent' \<Rightarrow> Inr (store_path self (butlast layer_list) parent'))"

text \<open>The loop over the patterns, with the root and \<open>hit_layer_pattern_list\<close> as state.\<close>

fun upgrade_loop ::
  "'a obj \<Rightarrow> string list \<Rightarrow> ('a obj \<Rightarrow> string \<Rightarrow> 'a obj) \<Rightarrow> string list
     \<Rightarrow> error + ('a obj \<times> string list)"
where
  "upgrade_loop self [] handle_func hit_layer_pattern_list = Inr (self, hit_layer_pattern_list)"
| "upgrade_loop self (pattern # ps) handle_func hit_layer_pattern_list =
     (case parse_pattern_str pattern self of
        Inl e \<Rightarrow> Inl e
      | Inr None \<Rightarrow> upgrade_loop self ps handle_func hit_layer_pattern_list
      | Inr (Some layer_list) \<Rightarrow>
          if layer_list = [] then upgrade_loop self ps handle_func hit_layer_pattern_list
          else (case upgrade_one self pattern handle_func layer_list of
                  Inl e \<Rightarrow> Inl e
                | Inr self' \<Rightarrow>
                    upgrade_loop self' ps handle_func (hit_layer_pattern_list @ [pattern])))"

text \<open>\<open>layer_name_pattern\<close> is one string or a list of strings.\<close>

datatype pattern_arg = One string | Many "string list"

fun upgrade_sublayer ::
  "'a obj \<Rightarrow> pattern_arg \<Rightarrow> ('a obj \<Rightarrow> string \<Rightarrow> 'a obj) \<Rightarrow> error + ('a obj \<times> string list)"
where
  "upgrade_sublayer self (One pattern) handle_func = upgrade_loop self [pattern] handle_func []"
| "upgrade_sublayer self (Many patterns) handle_func = upgrade_loop self patterns handle_func []"

subsection \<open>The result-capturing hooks\<close>

text \<open>
  \<open>save_sub_res_hook(layer, input, output)\<close> does \<open>layer.res_dict[layer.res_name] =
  output\<close>. \<open>update_res\<close> hands the root's \<open>res_dict\<close> object to every layer it hooks,
  so there is one capture buffer; it is the state here.
\<close>

definition save_sub_res_hook :: "string \<Rightarrow> 'v \<Rightarrow> 'v dict \<Rightarrow> 'v dict" where
  "save_sub_res_hook res_name output res_dict = dict_set res_name output res_dict"

text \<open>
  \<open>_return_dict_hook\<close>: the loop over \<open>list(self.res_dict)\<close>, and the hook. The hook
  returns the result mapping and the capture buffer as it leaves it.
  \<^verbatim>\<open>
  res_dict = {"output": output}
  for res_key in list(self.res_dict):
      res_dict[res_key] = self.res_dict.pop(res_key)
  return res_dict
  \<close>
\<close>

fun return_dict_loop ::
  "string list \<Rightarrow> 'v dict \<Rightarrow> 'v dict \<Rightarrow> error + ('v dict \<times> 'v dict)"
where
  "return_dict_loop [] res_dict self_res_dict = Inr (res_dict, self_res_dict)"
| "return_dict_loop (res_key # ks) res_dict self_res_dict =
     (case dict_pop res_key self_res_dict of
        Inl e \<Rightarrow> Inl e
      | Inr (v, self_res_dict') \<Rightarrow> return_dict_loop ks (dict_set res_key v res_dict) self_res_dict')"

definition return_dict_hook :: "'v dict \<Rightarrow> 'v \<Rightarrow> error + ('v dict \<times> 'v dict)" where
  "return_dict_hook self_res_dict output =
     return_dict_loop (map fst self_res_dict) [(''output'', output)] self_res_dict"

text \<open>
  One forward pass through a root whose hooks are attached: the hooked sub-layers that
  the pass runs through fire \<open>save_sub_res_hook\<close> in order (\<open>captures\<close> lists their
  \<open>res_name\<close> and output), then the root's post-hook \<open>_return_dict_hook\<close> fires with the
  root's output.
\<close>

definition forward_pass ::
  "(string \<times> 'v) list \<Rightarrow> 'v \<Rightarrow> 'v dict \<Rightarrow> error + ('v dict \<times> 'v dict)"
where
  "forward_pass captures output self_res_dict =
     return_dict_hook (fold (\<lambda>c. save_sub_res_hook (fst c) (snd c)) captures self_res_dict) output"

section \<open>pixel2style2pixel.style\_transfer (Image\_gan/gan/pixel2style2pixel/module.py)\<close>

text \<open>
  The predictor \<open>self.network.run\<close>, \<open>cv2.imread\<close> (\<open>None\<close> for a file it cannot read)
  and the channel flip \<open>[:, :, ::-1]\<close> are parameters. The calls that select the device
  (\<open>paddle.disable_static\<close>, \<open>paddle.set_device\<close>) belong to the framework and are not
  modelled. A call returns what it printed, the indices \<open>i\<close> of the results it wrote to
  \<open>output_i.png\<close> and \<open>output_i.npy\<close>, and its return value, where \<open>None\<close> is the bare
  \<open>return\<close>.
\<close>

fun run_images :: "('img \<Rightarrow> 'out option) \<Rightarrow> ('img \<Rightarrow> 'img) \<Rightarrow> 'img list \<Rightarrow> 'out option list" where
  "run_images run flip [] = []"
| "run_images run flip (img # imgs) = run (flip img) # run_images run flip imgs"

fun run_paths ::
  "('img \<Rightarrow> 'out option) \<Rightarrow> (string \<Rightarrow> 'img option) \<Rightarrow> ('img \<Rightarrow> 'img) \<Rightarrow> string list
     \<Rightarrow> error + 'out option list"
where
  "run_paths run imread flip [] = Inr []"
| "run_paths run imread flip (path # paths) =
     (case imread path of
        None \<Rightarrow> Inl TypeError
      | Some img \<Rightarrow>
          (case run_paths run imread flip paths of
             Inl e \<Rightarrow> Inl e
           | Inr outs \<Rightarrow> Inr (run (flip img) # outs)))"

definition written :: "'out option list \<Rightarrow> nat list" where
  "written results = map fst (filter (\<lambda>p. snd p \<noteq> None) (enumerate 0 results))"

definition style_transfer ::
  "('img \<Rightarrow> 'out option) \<Rightarrow> (string \<Rightarrow> 'img option) \<Rightarrow> ('img \<Rightarrow> 'img)
     \<Rightarrow> 'img list option \<Rightarrow> string list option \<Rightarrow> bool
     \<Rightarrow> error + (string list \<times> nat list \<times> 'out option list option)"
where
  "style_transfer run imread flip images paths visualization =
     (if images = None \<and> paths = None then
        Inr ([''No image provided. Please input an image or a image path.''], [], None)
      else
        (case run_paths run imread flip (case paths of None \<Rightarrow> [] | Some ps \<Rightarrow> ps) of
           Inl e \<Rightarrow> Inl e
         | Inr outs \<Rightarrow>
             (let results =
                    run_images run flip (case images of None \<Rightarrow> [] | Some imgs \<Rightarrow> imgs) @ outs
              in Inr ([], if visualization then written results else [], Some results))))"

section \<open>DarkNet53.run\_cmd (classification/darknet53\_imagenet/module.py)\<close>

text \<open>
  \<open>fmt % arg\<close> for a format string whose only conversions are \<open>%s\<close> and \<open>%%\<close>, and
  the list of the arguments it is given (one element when the right operand is a string and
  not a tuple). Too few or too many arguments raise \<open>TypeError\<close>.
\<close>

fun py_format :: "string \<Rightarrow> string list \<Rightarrow> error + string" where
  "py_format [] args = (if args = [] then Inr [] else Inl TypeError)"
| "py_format [c] args =
     (if c = CHR ''%'' then Inl ValueError
      else if args = [] then Inr [c] else Inl TypeError)"
| "py_format (c # d # cs) args =
     (if c = CHR ''%'' then
        (if d = CHR ''s'' then
           (case args of
              [] \<Rightarrow> Inl TypeError
            | a # as \<Rightarrow> (case py_format cs as of Inl e \<Rightarrow> Inl e | Inr r \<Rightarrow> Inr (a @ r)))
         else if d = CHR ''%'' then
           (case py_format cs args of Inl e \<Rightarrow> Inl e | Inr r \<Rightarrow> Inr (CHR ''%'' # r))
         else Inl ValueError)
      else (case py_format (d # cs) args of Inl e \<Rightarrow> Inl e | Inr r \<Rightarrow> Inr (c # r)))"

text \<open>
  The parsed command line. \<open>os.path.exists\<close>, \<open>txt_parser.parse\<close> and
  \<open>self.classification\<close> are parameters.
\<close>

record cmd_args =
  input_path :: "string option"
  input_file :: "string option"
  use_gpu :: bool
  batch_size :: int

definition check_input_data ::
  "(string \<Rightarrow> bool) \<Rightarrow> (string \<Rightarrow> string list) \<Rightarrow> cmd_args \<Rightarrow> error + string list"
where
  "check_input_data path_exists txt_parse args =
     (if str_truthy (input_path args) then Inr [the (input_path args)]
      else if str_truthy (input_file args) then
        (if \<not> path_exists (the (input_file args))
         then Inl (RuntimeError (''File '' @ the (input_file args) @ '' is not exist.''))
         else Inr (txt_parse (the (input_file args))))
      else Inr [])"

text \<open>
  \<^verbatim>\<open>
  for image_path in input_data:
      if not os.path.exists(image_path):
          raise RuntimeError("File %s or %s is not exist." % image_path)
  \<close>
  The loop returns the exception that leaves it, if any.
\<close>

fun check_paths :: "(string \<Rightarrow> bool) \<Rightarrow> string list \<Rightarrow> error option" where
  "check_paths path_exists [] = None"
| "check_paths path_exists (image_path # input_data) =
     (if \<not> path_exists image_path then
        (case py_format ''File %s or %s is not exist.'' [image_path] of
           Inl e \<Rightarrow> Some e
         | Inr msg \<Rightarrow> Some (RuntimeError msg))
      else check_paths path_exists input_data)"

definition run_cmd ::
  "(string \<Rightarrow> bool) \<Rightarrow> (string \<Rightarrow> string list) \<Rightarrow> (string list \<Rightarrow> bool \<Rightarrow> int \<Rightarrow> 'r)
     \<Rightarrow> cmd_args \<Rightarrow> error + 'r"
where
  "run_cmd path_exists txt_parse classification args =
     (case check_input_data path_exists txt_parse args of
        Inl e \<Rightarrow> Inl e
      | Inr input_data \<Rightarrow>
          if length input_data = 0 then Inl (SystemExit 1)
          else (case check_paths path_exists input_data of
                  Some e \<Rightarrow> Inl e
                | None \<Rightarrow> Inr (classification input_data (use_gpu args) (batch_size args))))"


section \<open>Well-formed graphs and the words of the specification\<close>

text \<open>
  A well-formed layer is a layer as the framework builds it: \<open>_sub_layers\<close> is a
  dictionary, so the names of the children of one layer are distinct; the attribute
  assignment of a layer keeps a name either among the sub-layers or among the other
  attributes, so no child has the name of another attribute; and the children are
  well-formed layers. Nothing is asked of the values of the other attributes.
\<close>

fun wf_layer :: "'a obj \<Rightarrow> bool" where
  "wf_layer (Layer c as subs) =
     (distinct (map fst subs) \<and> set (map fst subs) \<inter> set (map fst as) = {}
      \<and> list_all wf_layer (map snd subs))"
| "wf_layer (Dict fs its) = False"
| "wf_layer (Opaque b fs) = False"

text \<open>
  Truncation in the words of the specification. \<open>truncate_children k f d\<close>: among the
  children \<open>d\<close> of one layer, those before the child named \<open>k\<close> stay as they are, the
  child named \<open>k\<close> becomes \<open>f\<close> of itself, and every child after it becomes an
  identity node; without a child named \<open>k\<close> nothing changes. \<open>truncate_spec\<close> does
  this at each level of a path of names and indices: at the matched name, then, when the
  step has an index, at the matched index within the named sequence, and goes on below the
  match with the rest of the path. It stops at the first level that does not find its name
  or its index.
\<close>

fun truncate_children ::
  "string \<Rightarrow> ('a obj \<Rightarrow> 'a obj) \<Rightarrow> 'a obj dict \<Rightarrow> 'a obj dict"
where
  "truncate_children k f [] = []"
| "truncate_children k f (p # d) =
     (if fst p = k then (fst p, f (snd p)) # map (\<lambda>q. (fst q, Identity)) d
      else p # truncate_children k f d)"

fun truncate_spec :: "'a obj \<Rightarrow> (string \<times> string option) list \<Rightarrow> 'a obj" where
  "truncate_spec l [] = l"
| "truncate_spec l (step # rest) =
     map_sub_layers
       (truncate_children (fst step)
          (\<lambda>c. if str_truthy (snd step)
               then map_sub_layers
                      (truncate_children (the (snd step)) (\<lambda>e. truncate_spec e rest)) c
               else truncate_spec c rest))
       l"

text \<open>
  What one level of \<open>truncate_spec\<close> does to the child under the matched name: \<open>g\<close> is
  applied to the child itself, or, with an index, within the child at that index.
\<close>

definition level_fun ::
  "string option \<Rightarrow> ('a obj \<Rightarrow> 'a obj) \<Rightarrow> 'a obj \<Rightarrow> 'a obj"
where
  "level_fun i g c =
     (if str_truthy i then map_sub_layers (truncate_children (the i) g) c else g c)"

text \<open>
  Every level of a path finds its segment: the name is a child of the level's parent, and
  an index, when the step has one, is a child of the named sequence.
\<close>

fun located_all :: "'a obj \<Rightarrow> (string \<times> string option) list \<Rightarrow> bool" where
  "located_all l [] = True"
| "located_all l (step # rest) =
     (case map_of (sub_layers l) (fst step) of
        None \<Rightarrow> False
      | Some c \<Rightarrow>
          if str_truthy (snd step)
          then (case map_of (sub_layers c) (the (snd step)) of
                  None \<Rightarrow> False
                | Some e \<Rightarrow> located_all e rest)
          else located_all c rest)"

text \<open>The names and indices of the steps of a resolved path.\<close>

definition plan_of :: "'a layer_dict list \<Rightarrow> (string \<times> string option) list" where
  "plan_of layer_list = map (\<lambda>d. (name d, index d)) layer_list"

text \<open>Two forward passes in a row: the second starts with the buffer the first has left.\<close>

definition two_passes ::
  "(string \<times> 'v) list \<Rightarrow> 'v \<Rightarrow> (string \<times> 'v) list \<Rightarrow> 'v \<Rightarrow> 'v dict
     \<Rightarrow> error + ('v dict \<times> 'v dict \<times> 'v dict)"
where
  "two_passes captures1 output1 captures2 output2 self_res_dict =
     (case forward_pass captures1 output1 self_res_dict of
        Inl e \<Rightarrow> Inl e
      | Inr (res1, buffer1) \<Rightarrow>
          (case forward_pass captures2 output2 buffer1 of
             Inl e \<Rightarrow> Inl e
           | Inr (res2, buffer2) \<Rightarrow> Inr (res1, res2, buffer2)))"

subsection \<open>Example graphs\<close>

definition leaf :: "nat \<Rightarrow> nat obj" where
  "leaf n = Layer (Plain n) [] []"

text \<open>A root with a convolution, a sequence \<open>blocks\<close> of three blocks and a classifier.\<close>

definition small_net :: "nat obj" where
  "small_net =
     Layer (Plain 0) []
       [(''conv1'', leaf 1),
        (''blocks'',
         Layer (Container 2) []
           [(''0'', Layer (Plain 3) [] [(''pw_1'', leaf 4), (''dw_1'', leaf 5), (''se'', leaf 6)]),
            (''1'', leaf 7),
            (''2'', leaf 8)]),
        (''fc'', leaf 9)]"

text \<open>A root whose sequence \<open>blocks\<close> is empty (\<open>nn.Sequential()\<close>).\<close>

definition empty_blocks_net :: "nat obj" where
  "empty_blocks_net =
     Layer (Plain 0) []
       [(''conv1'', leaf 1), (''blocks'', Layer (Container 2) [] []), (''fc'', leaf 3)]"

text \<open>A root with a sequence of five children between two other layers.\<close>

definition five_net :: "nat obj" where
  "five_net =
     Layer (Plain 0) []
       [(''conv1'', leaf 1),
        (''blocks'',
         Layer (Container 2) []
           [(''0'', leaf 10), (''1'', leaf 11), (''2'', leaf 12), (''3'', leaf 13), (''4'', leaf 14)]),
        (''fc'', leaf 3)]"

text \<open>A root whose child \<open>stage\<close> holds an empty sequence \<open>seq\<close> before a layer \<open>tail\<close>.\<close>

definition nested_empty_net :: "nat obj" where
  "nested_empty_net =
     Layer (Plain 0) []
       [(''stage'', Layer (Plain 1) [] [(''seq'', Layer (Container 2) [] []), (''tail'', leaf 3)]),
        (''fc'', leaf 4)]"

text \<open>
  Values that are not layers: a boolean \<open>True\<close> (true, without length, items or
  assignable attributes), a string that is not empty (true, with a length; an item access
  with a string key is a \<open>TypeError\<close>), and the empty dictionary \<open>{}\<close>.
\<close>

definition py_True :: "nat obj" where
  "py_True = Opaque (Behaviour (Inr True) (Inl TypeError) TypeError TypeError AttributeError) []"

definition py_str :: "nat \<Rightarrow> nat obj" where
  "py_str n =
     Opaque (Behaviour (Inr (n \<noteq> 0)) (Inr (int n)) TypeError TypeError AttributeError) []"

definition empty_dict :: "nat obj" where
  "empty_dict = Dict [] []"

text \<open>
  A root as \<open>TheseusLayer.__init__\<close> and \<open>ESNet.__init__\<close> leave it: the attributes
  \<open>res_dict = {}\<close> and \<open>res_name\<close> (a name of 7 characters), a \<open>ConvBNLayer\<close> under
  \<open>conv1\<close> with the attributes of a \<open>TheseusLayer\<close> and \<open>if_act = True\<close> and with the
  sub-layers \<open>conv\<close> and \<open>bn\<close>, a sequence of two blocks, and a classifier.
\<close>

definition theseus_net :: "nat obj" where
  "theseus_net =
     Layer (Plain 0)
       [(''res_dict'', InInstance, empty_dict), (''res_name'', InInstance, py_str 7)]
       [(''conv1'',
         Layer (Plain 1)
           [(''res_dict'', InInstance, empty_dict), (''res_name'', InInstance, py_str 12),
            (''if_act'', InInstance, py_True)]
           [(''conv'', leaf 2), (''bn'', leaf 3)]),
        (''blocks'', Layer (Container 4) [] [(''0'', leaf 5), (''1'', leaf 6)]),
        (''fc'', leaf 7)]"

definition example_args :: cmd_args where
  "example_args =
     \<lparr>input_path = Some ''missing.jpg'', input_file = None, use_gpu = False, batch_size = 1\<rparr>"

section \<open>Path resolution\<close>

lemma split_on_nonempty: "split_on c s \<noteq> []"
  by (induction s) auto

lemma split_on_length: "length (split_on c s) = Suc (length (filter (\<lambda>x. x = c) s))"
proof (induction s)
  case Nil
  then show ?case by simp
next
  case (Cons x xs)
  have "length (tl (split_on c xs)) = length (filter (\<lambda>x. x = c) xs)"
    using Cons.IH by simp
  then show ?case using Cons.IH by simp
qed

text \<open>
  A segment that holds a bracket has a part after the bracket: the read at position 1 in
  \<open>parse_segment\<close> is within the list.
\<close>

lemma split_on_bracket: "c \<in> set seg \<Longrightarrow> 1 < length (split_on c seg)"
proof -
  assume "c \<in> set seg"
  then have "filter (\<lambda>x. x = c) seg \<noteq> []"
    by (simp add: filter_empty_conv)
  then show ?thesis
    by (simp add: split_on_length)
qed

text \<open>
  C1. A pattern whose bracket holds no number is not reported by the \<open>None\<close> result: on
  \<open>small_net\<close>, whose \<open>blocks\<close> has three children, \<open>parse_pattern_str\<close> leaves the
  pattern \<open>blocks[x]\<close> through the \<open>ValueError\<close> of \<open>int("x")\<close>.
\<close>

theorem parse_pattern_str_malformed_index_raises:
  "parse_pattern_str ''blocks[x]'' small_net = Inl ValueError"
  by code_simp

text \<open>
  More ways out of \<open>parse_pattern_str\<close> by an exception: an index on a layer that is
  not a sequence (\<open>len\<close> raises, in the condition or, for a negative index, in the
  message of the rejecting branch), an index on an attribute that is a string (the item
  access raises), and an index that is a number within the length but not a key of the
  sequence (the item access raises).
\<close>

lemma parse_pattern_str_index_on_plain_layer:
  "parse_pattern_str ''conv1[0]'' small_net = Inl TypeError"
  by code_simp

lemma parse_pattern_str_negative_index_on_plain_layer:
  "parse_pattern_str ''conv1[-1]'' small_net = Inl TypeError"
  by code_simp

lemma parse_pattern_str_index_on_string:
  "parse_pattern_str ''res_name[0]'' theseus_net = Inl TypeError"
  by code_simp

lemma parse_pattern_str_index_not_a_key:
  "parse_pattern_str ''blocks[01]'' small_net = Inl KeyError"
  by code_simp

text \<open>An unknown name and an index beyond the length are the \<open>None\<close> result.\<close>

lemma parse_pattern_str_unknown_name:
  "parse_pattern_str ''blocks[0].conv'' small_net = Inr None"
  by code_simp

lemma parse_pattern_str_beyond_length:
  "parse_pattern_str ''blocks[3]'' small_net = Inr None"
  by code_simp

text \<open>
  A name that is an attribute and not a sub-layer resolves like the name of a sub-layer:
  the path \<open>conv1.if_act\<close> ends at the boolean.
\<close>

lemma parse_pattern_str_attribute:
  "parse_pattern_str ''conv1.if_act'' theseus_net
     = Inr (Some [LayerDict
                    (Layer (Plain 1)
                       [(''res_dict'', InInstance, empty_dict),
                        (''res_name'', InInstance, py_str 12),
                        (''if_act'', InInstance, py_True)]
                       [(''conv'', leaf 2), (''bn'', leaf 3)])
                    ''conv1'' None,
                  LayerDict py_True ''if_act'' None])"
  by code_simp

text \<open>
  C5. An index on an empty sequence is not checked against its length: on
  \<open>empty_blocks_net\<close> the pattern \<open>blocks[0]\<close>, whose index is not below the length 0,
  resolves, and the step it returns holds the empty sequence itself.
\<close>

theorem parse_pattern_str_empty_sequence_index_resolves:
  "parse_pattern_str ''blocks[0]'' empty_blocks_net
     = Inr (Some [LayerDict (Layer (Container 2) [] []) ''blocks'' (Some ''0'')])"
  by code_simp

text \<open>
  On a sequence that is not empty the check is made: an index below 0 or not below the
  length is the \<open>None\<close> result, and nothing is read from the sequence.
\<close>

lemma index_layer_out_of_range:
  assumes "str_truthy i" and "is_container c" and "sub_layers c \<noteq> []"
    and "py_int (the i) = Inr k" and "k < 0 \<or> int (length (sub_layers c)) \<le> k"
  shows "index_layer c i = Inr None"
proof -
  from assms(2) obtain x as subs where c: "c = Layer (Container x) as subs"
    by (cases c) (auto simp: is_container_def split: cls.splits)
  show ?thesis
    using assms by (auto simp: c index_layer_def py_bool_def py_len_def is_container_def)
qed

text \<open>
  C2. On \<open>empty_blocks_net\<close>, \<open>upgrade_sublayer\<close> with the pattern \<open>blocks[0]\<close> reports
  the pattern as applied, and the node the pattern resolved to (the empty sequence) is not
  replaced: it stays under \<open>blocks\<close> and receives the output of the transform as a new
  child \<open>0\<close>.
\<close>

theorem upgrade_sublayer_empty_sequence_inserts:
  "upgrade_sublayer empty_blocks_net (One ''blocks[0]'') (\<lambda>l p. leaf 100)
     = Inr (Layer (Plain 0) []
              [(''conv1'', leaf 1),
               (''blocks'', Layer (Container 2) [] [(''0'', leaf 100)]),
               (''fc'', leaf 3)],
            [''blocks[0]''])"
  by code_simp

section \<open>Truncation\<close>

subsection \<open>Dictionaries and the two loops of set\_identity\<close>

lemma map_of_dict_set: "map_of (dict_set k v d) = (map_of d)(k \<mapsto> v)"
  by (induction d) (auto simp: fun_eq_iff)

lemma keys_dict_set: "k \<in> fst ` set d \<Longrightarrow> map fst (dict_set k v d) = map fst d"
  by (induction d) auto

lemma dict_set_append: "k \<notin> fst ` set pre \<Longrightarrow> dict_set k v (pre @ p # post) = pre @ (if fst p = k then (k, v) # post else p # dict_set k v post)"
  by (induction pre) auto

lemma tc_map_of: "map_of (truncate_children n f d) n = map_option f (map_of d n)"
  by (induction d) auto

lemma tc_keys: "map fst (truncate_children n f d) = map fst d"
  by (induction d) auto

lemma tc_absent: "n \<notin> fst ` set d \<Longrightarrow> truncate_children n f d = d"
  by (induction d) auto

lemma tc_cong: "(\<And>c. map_of d n = Some c \<Longrightarrow> f c = g c) \<Longrightarrow> truncate_children n f d = truncate_children n g d"
  by (induction d) auto

lemma tc_set: "n \<in> fst ` set d \<Longrightarrow> dict_set n v (truncate_children n f d) = truncate_children n (\<lambda>_. v) d"
  by (induction d) auto

lemma tc_tc: "truncate_children n f (truncate_children n g d) = truncate_children n (\<lambda>c. f (g c)) d"
  by (induction d) auto

lemma map_of_eq_None_keys: "(map_of d n = None) = (n \<notin> fst ` set d)"
  by (simp add: map_of_eq_None_iff)

lemma lookup_in_absent: "key \<notin> fst ` set as \<Longrightarrow> lookup_in places as key = None"
  by (force simp: lookup_in_def find_None_iff)

lemma map_sub_layers_Layer: "map_sub_layers f (Layer k as subs) = Layer k as (f subs)"
  by (simp add: map_sub_layers_def)

lemma is_layerE:
  assumes "is_layer l"
  obtains k as subs where "l = Layer k as subs"
  using assms by (cases l) (auto simp: is_layer_def)

lemma is_containerE:
  assumes "is_container c"
  obtains x as subs where "c = Layer (Container x) as subs"
proof (cases c)
  case (Layer k as subs)
  then show ?thesis using assms that by (cases k) (auto simp: is_container_def)
next
  case (Dict fs its)
  then show ?thesis using assms by (simp add: is_container_def)
next
  case (Opaque b fs)
  then show ?thesis using assms by (simp add: is_container_def)
qed

lemma wf_is_layer: "wf_layer l \<Longrightarrow> is_layer l"
  by (cases l) (auto simp: is_layer_def)

lemma is_layer_Identity: "is_layer Identity"
  by (simp add: is_layer_def Identity_def)

lemma setitem_container:
  assumes "key \<notin> fst ` set as"
  shows "py_setitem (Layer (Container x) as subs) key Identity
           = Inr (Layer (Container x) as (dict_set key Identity subs))"
  using assms
  by (force simp: py_setitem_def py_setattr_def is_container_def is_layer_Identity
        lookup_in_absent filter_id_conv)

lemma sin_true:
  "distinct (map fst (pre @ post)) \<Longrightarrow>
   set_identity_names (map fst post) n True (pre @ post) = (True, pre @ map (\<lambda>q. (fst q, Identity)) post)"
proof (induction post arbitrary: pre)
  case Nil
  then show ?case by simp
next
  case (Cons p post)
  have notin: "fst p \<notin> fst ` set pre" using Cons.prems by auto
  have d: "distinct (map fst ((pre @ [(fst p, Identity)]) @ post))" using Cons.prems by auto
  have "dict_set (fst p) Identity (pre @ p # post) = (pre @ [(fst p, Identity)]) @ post"
    using notin by (simp add: dict_set_append)
  then show ?case using Cons.IH[OF d] by simp
qed

lemma sin_false:
  "distinct (map fst (pre @ post)) \<Longrightarrow>
   set_identity_names (map fst post) n False (pre @ post) = (n \<in> fst ` set post, pre @ truncate_children n id post)"
proof (induction post arbitrary: pre)
  case Nil
  then show ?case by simp
next
  case (Cons p post)
  show ?case
  proof (cases "fst p = n")
    case True
    have d: "distinct (map fst ((pre @ [p]) @ post))" using Cons.prems by auto
    show ?thesis using True sin_true[OF d, of n] by (cases p) simp
  next
    case False
    have d: "distinct (map fst ((pre @ [p]) @ post))" using Cons.prems by auto
    show ?thesis using False Cons.IH[OF d] by auto
  qed
qed

lemma set_identity_names_eq:
  "distinct (map fst d) \<Longrightarrow> set_identity_names (map fst d) n False d = (n \<in> fst ` set d, truncate_children n id d)"
  using sin_false[of "[]" d n] by simp

lemma sii_true:
  "distinct (map fst (pre @ post)) \<Longrightarrow> fst ` set post \<inter> fst ` set as = {} \<Longrightarrow>
   set_identity_indices (map fst post) i True (Layer (Container x) as (pre @ post))
     = Inr (True, Layer (Container x) as (pre @ map (\<lambda>q. (fst q, Identity)) post))"
proof (induction post arbitrary: pre)
  case Nil
  then show ?case by simp
next
  case (Cons p post)
  have notin: "fst p \<notin> fst ` set pre" using Cons.prems by auto
  have na: "fst p \<notin> fst ` set as" using Cons.prems(2) by auto
  have s: "py_setitem (Layer (Container x) as (pre @ p # post)) (fst p) Identity
             = Inr (Layer (Container x) as ((pre @ [(fst p, Identity)]) @ post))"
    using notin by (simp add: setitem_container[OF na] dict_set_append)
  have d: "distinct (map fst ((pre @ [(fst p, Identity)]) @ post))" using Cons.prems by auto
  have a: "fst ` set post \<inter> fst ` set as = {}" using Cons.prems(2) by auto
  show ?case using s Cons.IH[OF d a] by simp
qed

lemma sii_false:
  "distinct (map fst (pre @ post)) \<Longrightarrow> fst ` set post \<inter> fst ` set as = {} \<Longrightarrow>
   set_identity_indices (map fst post) i False (Layer (Container x) as (pre @ post))
     = Inr (i \<in> fst ` set post, Layer (Container x) as (pre @ truncate_children i id post))"
proof (induction post arbitrary: pre)
  case Nil
  then show ?case by simp
next
  case (Cons p post)
  have d: "distinct (map fst ((pre @ [p]) @ post))" using Cons.prems by auto
  have a: "fst ` set post \<inter> fst ` set as = {}" using Cons.prems(2) by auto
  show ?case
  proof (cases "i = fst p")
    case True
    show ?thesis using True sii_true[OF d a, of i x] by (cases p) simp
  next
    case False
    show ?thesis using False Cons.IH[OF d a] by auto
  qed
qed

lemma set_identity_indices_eq:
  assumes "is_container c" and "wf_layer c"
  shows "set_identity_indices (map fst (sub_layers c)) i False c
     = Inr (i \<in> fst ` set (sub_layers c), map_sub_layers (truncate_children i id) c)"
proof -
  from assms(1) obtain x as subs where c: "c = Layer (Container x) as subs"
    by (rule is_containerE)
  have d: "distinct (map fst ([] @ subs))" and a: "fst ` set subs \<inter> fst ` set as = {}"
    using assms(2) unfolding c by auto
  show ?thesis
    using sii_false[OF d a, of i x] by (simp add: c map_sub_layers_Layer)
qed

lemma set_identity_eq:
  assumes "wf_layer l"
    and "\<And>c. str_truthy i \<Longrightarrow> map_of (sub_layers l) n = Some c \<Longrightarrow> is_container c"
  shows "set_identity l n i
     = Inr (map_sub_layers (truncate_children n (level_fun i id)) l,
            (case map_of (sub_layers l) n of None \<Rightarrow> False
             | Some c \<Rightarrow> str_truthy i \<longrightarrow> map_of (sub_layers c) (the i) \<noteq> None))"
proof -
  from wf_is_layer[OF assms(1)] obtain k as subs where l: "l = Layer k as subs"
    by (rule is_layerE)
  have il: "is_layer l" by (simp add: l is_layer_def)
  have d: "distinct (map fst subs)" using assms(1) unfolding l by simp
  show ?thesis
  proof (cases "map_of subs n")
    case None
    then have notin: "n \<notin> fst ` set subs" by (simp add: map_of_eq_None_keys)
    show ?thesis
      using None notin d
      by (simp add: l set_identity_def is_layer_def set_identity_names_eq tc_absent
            map_sub_layers_Layer)
  next
    case (Some c)
    then have isin: "n \<in> fst ` set subs"
      by (metis map_of_eq_None_keys option.distinct(1))
    have wc: "wf_layer c"
      using assms(1) Some unfolding l by (auto simp: list_all_iff dest!: map_of_SomeD)
    show ?thesis
    proof (cases "str_truthy i")
      case False
      have "truncate_children n (level_fun i id) subs = truncate_children n id subs"
        using False by (intro tc_cong) (simp add: level_fun_def)
      then show ?thesis
        using Some isin False d
        by (simp add: l set_identity_def is_layer_def set_identity_names_eq map_sub_layers_Layer)
    next
      case True
      have cc: "is_container c" using assms(2)[OF True] Some by (simp add: l)
      have lc: "is_layer c" using wc by (rule wf_is_layer)
      have m: "map_of (truncate_children n id subs) n = Some c"
        using Some by (simp add: tc_map_of)
      have e: "dict_set n (map_sub_layers (truncate_children (the i) id) c)
                 (truncate_children n id subs)
               = truncate_children n (level_fun i id) subs"
      proof -
        have "truncate_children n (\<lambda>_. map_sub_layers (truncate_children (the i) id) c) subs
                = truncate_children n (level_fun i id) subs"
          using Some True by (intro tc_cong) (simp add: level_fun_def)
        then show ?thesis using isin by (simp add: tc_set)
      qed
      have k: "(the i \<in> fst ` set (sub_layers c)) = (map_of (sub_layers c) (the i) \<noteq> None)"
        by (simp add: map_of_eq_None_keys)
      show ?thesis
        using Some isin True d m e k lc
        by (simp add: l set_identity_def is_layer_def[of "Layer k as subs"] set_identity_names_eq
              set_identity_indices_eq[OF cc wc] map_sub_layers_Layer)
    qed
  qed
qed

subsection \<open>The loop of parse\_pattern\_str\<close>

lemma parse_loop_acc:
  "parse_loop segs l acc
     = (case parse_loop segs l [] of
          Inl e \<Rightarrow> Inl e
        | Inr None \<Rightarrow> Inr None
        | Inr (Some ds) \<Rightarrow> Inr (Some (acc @ ds)))"
proof (induction segs arbitrary: l acc)
  case Nil
  then show ?case by simp
next
  case (Cons seg segs)
  define n where "n = fst (parse_segment seg)"
  define i where "i = snd (parse_segment seg)"
  show ?case
  proof (cases "py_getattr l n")
    case None
    then show ?thesis by (simp add: n_def)
  next
    case (Some c)
    show ?thesis
    proof (cases "index_layer c i")
      case (Inl e)
      then show ?thesis using Some by (simp add: n_def i_def)
    next
      case (Inr r)
      show ?thesis
      proof (cases r)
        case None
        then show ?thesis using Some Inr by (simp add: n_def i_def)
      next
        case (Some t)
        have a: "parse_loop (seg # segs) l acc = parse_loop segs t (acc @ [LayerDict t n i])"
          using \<open>py_getattr l n = Some c\<close> Inr Some by (simp add: n_def i_def)
        have b: "parse_loop (seg # segs) l [] = parse_loop segs t [LayerDict t n i]"
          using \<open>py_getattr l n = Some c\<close> Inr Some by (simp add: n_def i_def)
        show ?thesis
          unfolding a b
          by (subst Cons.IH[of t "acc @ [LayerDict t n i]"], subst Cons.IH[of t "[LayerDict t n i]"])
             (simp split: sum.splits option.splits)
      qed
    qed
  qed
qed

lemma parse_loop_Cons:
  "parse_loop (seg # segs) l []
     = (case py_getattr l (fst (parse_segment seg)) of
          None \<Rightarrow> Inr None
        | Some c \<Rightarrow>
            (case index_layer c (snd (parse_segment seg)) of
               Inl e \<Rightarrow> Inl e
             | Inr None \<Rightarrow> Inr None
             | Inr (Some t) \<Rightarrow>
                 (case parse_loop segs t [] of
                    Inl e \<Rightarrow> Inl e
                  | Inr None \<Rightarrow> Inr None
                  | Inr (Some ds) \<Rightarrow>
                      Inr (Some (LayerDict t (fst (parse_segment seg)) (snd (parse_segment seg)) # ds)))))"
proof -
  have h: "\<And>t d. parse_loop segs t [d]
          = (case parse_loop segs t [] of
               Inl e \<Rightarrow> Inl e
             | Inr None \<Rightarrow> Inr None
             | Inr (Some ds) \<Rightarrow> Inr (Some (d # ds)))"
    by (subst parse_loop_acc) (simp split: sum.splits option.splits)
  show ?thesis
    by (simp add: h split: option.splits sum.splits)
qed

lemma parse_loop_ConsE:
  assumes "parse_loop (seg # segs) l [] = Inr (Some steps)"
  obtains c t ds where
    "py_getattr l (fst (parse_segment seg)) = Some c"
    "index_layer c (snd (parse_segment seg)) = Inr (Some t)"
    "parse_loop segs t [] = Inr (Some ds)"
    "steps = LayerDict t (fst (parse_segment seg)) (snd (parse_segment seg)) # ds"
proof -
  let ?n = "fst (parse_segment seg)" and ?i = "snd (parse_segment seg)"
  from assms obtain c where c: "py_getattr l ?n = Some c"
    unfolding parse_loop_Cons by (cases "py_getattr l ?n") auto
  from assms c obtain t where t: "index_layer c ?i = Inr (Some t)"
    unfolding parse_loop_Cons by (cases "index_layer c ?i") (auto split: option.splits)
  from assms c t obtain ds where ds: "parse_loop segs t [] = Inr (Some ds)"
    unfolding parse_loop_Cons by (cases "parse_loop segs t []") (auto split: option.splits)
  from assms c t ds have "steps = LayerDict t ?n ?i # ds"
    unfolding parse_loop_Cons by simp
  with c t ds show ?thesis using that by blast
qed

lemma parse_loop_plan:
  "parse_loop segs l [] = Inr (Some steps) \<Longrightarrow> plan_of steps = map parse_segment segs"
proof (induction segs arbitrary: l steps)
  case Nil
  then show ?case by (simp add: plan_of_def)
next
  case (Cons seg segs)
  from Cons.prems obtain c t ds where
    ds: "parse_loop segs t [] = Inr (Some ds)"
    and st: "steps = LayerDict t (fst (parse_segment seg)) (snd (parse_segment seg)) # ds"
    by (rule parse_loop_ConsE)
  show ?case using Cons.IH[OF ds] st by (simp add: plan_of_def)
qed

lemma getattr_sub: "n \<notin> fst ` set as \<Longrightarrow> py_getattr (Layer k as subs) n = map_of subs n"
  by (simp add: py_getattr_def lookup_in_absent split: option.splits)

lemma replace_attr_sub:
  "n \<notin> fst ` set as \<Longrightarrow> n \<in> fst ` set subs \<Longrightarrow>
   replace_attr (Layer k as subs) n new = Layer k as (dict_set n new subs)"
  by (simp add: replace_attr_def lookup_in_absent)

text \<open>What a successful index step of \<open>parse_pattern_str\<close> says about the layer it indexed.\<close>

lemma index_layer_SomeE:
  assumes "index_layer c i = Inr (Some t)" and "is_layer c"
  obtains (plain) "\<not> str_truthy i" "t = c"
  | (empty) "str_truthy i" "is_container c" "sub_layers c = []" "t = c"
  | (indexed) k where "str_truthy i" "is_container c" "sub_layers c \<noteq> []"
      "py_int (the i) = Inr k" "0 \<le> k" "k < int (length (sub_layers c))"
      "map_of (sub_layers c) (the i) = Some t"
proof (cases "str_truthy i")
  case False
  have "t = c" using assms(1) False by (simp add: index_layer_def)
  then show ?thesis using plain[OF False] by simp
next
  case True
  from assms(2) obtain kk as subs where c: "c = Layer kk as subs" by (rule is_layerE)
  have pb: "py_bool c = Inr (if is_container c then subs \<noteq> [] else True)"
    by (simp add: c py_bool_def)
  show ?thesis
  proof (cases "is_container c \<and> subs = []")
    case e: True
    then have ic: "is_container c" and em: "sub_layers c = []" by (auto simp: c)
    have tc: "t = c" using assms(1) True pb e by (simp add: index_layer_def)
    show ?thesis using empty[OF True ic em tc] .
  next
    case False
    then have pt: "py_bool c = Inr True" using pb by auto
    from assms(1) True pt obtain k where k: "py_int (the i) = Inr k"
      by (auto simp: index_layer_def split: sum.splits)
    from assms(1) True pt k have ic: "is_container c"
      by (auto simp: index_layer_def py_len_def c split: sum.splits if_splits)
    have pl: "py_len c = Inr (int (length subs))" using ic by (simp add: py_len_def c)
    from assms(1) True pt k pl have k0: "0 \<le> k"
      by (auto simp: index_layer_def split: sum.splits if_splits)
    from assms(1) True pt k pl have kl: "k < int (length (sub_layers c))"
      by (auto simp: index_layer_def c split: sum.splits if_splits)
    have pg: "py_getitem c (the i) = (case map_of subs (the i) of None \<Rightarrow> Inl KeyError | Some e \<Rightarrow> Inr e)"
      using ic by (simp add: py_getitem_def c)
    from assms(1) True pt k pl k0 kl pg have m: "map_of (sub_layers c) (the i) = Some t"
      by (auto simp: index_layer_def c split: sum.splits if_splits option.splits)
    have ne: "sub_layers c \<noteq> []" using kl k0 by auto
    show ?thesis using indexed[OF True ic ne k k0 kl m] .
  qed
qed

lemma wf_layer_child:
  "wf_layer l \<Longrightarrow> map_of (sub_layers l) n = Some c \<Longrightarrow> wf_layer c"
  by (cases l) (auto simp: list_all_iff dest!: map_of_SomeD)

lemma wf_layer_distinct: "wf_layer l \<Longrightarrow> distinct (map fst (sub_layers l))"
  by (cases l) simp_all

lemma wf_layer_disjoint: "wf_layer l \<Longrightarrow> fst ` set (sub_layers l) \<inter> fst ` set (attrs l) = {}"
  by (cases l) simp_all

lemma truncate_spec_Cons:
  "truncate_spec l (step # rest)
     = map_sub_layers (truncate_children (fst step)
          (level_fun (snd step) (\<lambda>e. truncate_spec e rest))) l"
proof -
  have h: "level_fun (snd step) (\<lambda>e. truncate_spec e rest)
        = (\<lambda>c. if str_truthy (snd step)
               then map_sub_layers
                      (truncate_children (the (snd step)) (\<lambda>e. truncate_spec e rest)) c
               else truncate_spec c rest)"
    by (rule ext) (simp add: level_fun_def)
  show ?thesis by (simp only: truncate_spec.simps h)
qed

lemma stop_after_loop_spec:
  "wf_layer l \<Longrightarrow> parse_loop segs l [] = Inr (Some steps) \<Longrightarrow>
   stop_after_loop l steps
     = Inr (truncate_spec l (plan_of steps), located_all l (plan_of steps))"
proof (induction segs arbitrary: l steps)
  case Nil
  then show ?case by (simp add: plan_of_def)
next
  case (Cons seg segs)
  define n where "n = fst (parse_segment seg)"
  define i where "i = snd (parse_segment seg)"
  from Cons.prems(2) obtain c0 t ds where
    ga: "py_getattr l n = Some c0"
    and il0: "index_layer c0 i = Inr (Some t)"
    and ds: "parse_loop segs t [] = Inr (Some ds)"
    and st: "steps = LayerDict t n i # ds"
    unfolding n_def i_def by (rule parse_loop_ConsE)
  from wf_is_layer[OF Cons.prems(1)] obtain k as subs where l: "l = Layer k as subs"
    by (rule is_layerE)
  have d: "distinct (map fst subs)" and dj: "fst ` set subs \<inter> fst ` set as = {}"
    using Cons.prems(1) unfolding l by auto
  have pl: "plan_of steps = (n, i) # plan_of ds" using st by (simp add: plan_of_def)
  show ?case
  proof (cases "map_of subs n")
    case None
    then have notin: "n \<notin> fst ` set subs" by (simp add: map_of_eq_None_keys)
    have p2: "\<And>c'. str_truthy i \<Longrightarrow> map_of (sub_layers l) n = Some c' \<Longrightarrow> is_container c'"
      using None by (simp add: l)
    have "set_identity l n i
       = Inr (map_sub_layers (truncate_children n (level_fun i id)) l,
              (case map_of (sub_layers l) n of None \<Rightarrow> False
               | Some c \<Rightarrow> str_truthy i \<longrightarrow> map_of (sub_layers c) (the i) \<noteq> None))"
      by (rule set_identity_eq[OF Cons.prems(1) p2])
    then have si: "set_identity l n i = Inr (l, False)"
      using None notin by (simp add: l map_sub_layers_Layer tc_absent)
    have ts: "truncate_spec l ((n, i) # plan_of ds) = l"
      using notin by (simp add: truncate_spec_Cons l map_sub_layers_Layer tc_absent del: truncate_spec.simps)
    have la: "located_all l ((n, i) # plan_of ds) = False"
      using None by (simp add: l)
    show ?thesis
      unfolding pl ts la using si st by simp
  next
    case (Some c)
    then have isin: "n \<in> fst ` set subs"
      by (metis map_of_eq_None_keys option.distinct(1))
    have na: "n \<notin> fst ` set as" using isin dj by auto
    have "py_getattr l n = Some c" using Some by (simp add: l getattr_sub[OF na])
    then have cc0: "c0 = c" using ga by simp
    have il: "index_layer c i = Inr (Some t)" using il0 cc0 by simp
    have mc: "map_of (sub_layers l) n = Some c" using Some by (simp add: l)
    have wc: "wf_layer c" using Cons.prems(1) mc by (rule wf_layer_child)
    have lc: "is_layer c" using wc by (rule wf_is_layer)
    have cont: "str_truthy i \<Longrightarrow> is_container c"
      using il lc by (rule index_layer_SomeE) auto
    have si: "set_identity l n i
       = Inr (Layer k as (truncate_children n (level_fun i id) subs),
              str_truthy i \<longrightarrow> map_of (sub_layers c) (the i) \<noteq> None)"
    proof -
      have p2: "\<And>c'. str_truthy i \<Longrightarrow> map_of (sub_layers l) n = Some c' \<Longrightarrow> is_container c'"
        using mc cont by simp
      have "set_identity l n i
         = Inr (map_sub_layers (truncate_children n (level_fun i id)) l,
                (case map_of (sub_layers l) n of None \<Rightarrow> False
                 | Some c \<Rightarrow> str_truthy i \<longrightarrow> map_of (sub_layers c) (the i) \<noteq> None))"
        by (rule set_identity_eq[OF Cons.prems(1) p2])
      then show ?thesis
        using Some by (simp add: l map_sub_layers_Layer)
    qed
    show ?thesis
    proof (cases "str_truthy i \<longrightarrow> map_of (sub_layers c) (the i) \<noteq> None")
      case False
      then have tr: "str_truthy i" and no: "map_of (sub_layers c) (the i) = None" by auto
      have abs: "the i \<notin> fst ` set (sub_layers c)"
        using no by (simp add: map_of_eq_None_keys)
      have lf: "level_fun i (\<lambda>e. truncate_spec e (plan_of ds)) c = level_fun i id c"
        using tr abs lc by (auto simp: level_fun_def tc_absent map_sub_layers_Layer elim!: is_layerE)
      have "truncate_children n (level_fun i (\<lambda>e. truncate_spec e (plan_of ds))) subs
            = truncate_children n (level_fun i id) subs"
        using Some lf by (intro tc_cong) simp
      then have ts: "truncate_spec l ((n, i) # plan_of ds)
            = Layer k as (truncate_children n (level_fun i id) subs)"
        by (simp add: truncate_spec_Cons l map_sub_layers_Layer del: truncate_spec.simps)
      have la: "located_all l ((n, i) # plan_of ds) = False"
        using Some tr no by (simp add: l)
      show ?thesis
        unfolding pl ts la using si False st by simp
    next
      case True
      have wt: "wf_layer t"
        using il lc
      proof (cases rule: index_layer_SomeE)
        case plain then show ?thesis using wc by simp
      next
        case empty then show ?thesis using wc by simp
      next
        case (indexed k) then show ?thesis using wc wf_layer_child by blast
      qed
      have ih: "stop_after_loop t ds = Inr (truncate_spec t (plan_of ds), located_all t (plan_of ds))"
        using Cons.IH[OF wt ds] .
      let ?T = "truncate_spec t (plan_of ds)"
      let ?F = "\<lambda>e. truncate_spec e (plan_of ds)"
      let ?L1 = "Layer k as (truncate_children n (level_fun i id) subs)"
      have g1: "py_getattr ?L1 n = Some (level_fun i id c)"
        using Some by (simp add: getattr_sub[OF na] tc_map_of)
      have isin1: "n \<in> fst ` set (truncate_children n (level_fun i id) subs)"
        using isin by (metis tc_keys set_map)
      have ra: "\<And>new. replace_attr ?L1 n new = Layer k as (truncate_children n (\<lambda>_. new) subs)"
        using isin by (simp add: replace_attr_sub[OF na isin1] tc_set)
      have sb: "store_back ?L1 (LayerDict t n i) ?T
                  = Layer k as (truncate_children n (level_fun i ?F) subs)"
      proof (cases "str_truthy i")
        case False
        have tc: "t = c" using il lc False by (cases rule: index_layer_SomeE) auto
        have "truncate_children n (\<lambda>_. ?T) subs = truncate_children n (level_fun i ?F) subs"
          using False Some tc by (intro tc_cong) (simp add: level_fun_def)
        then show ?thesis
          using False g1 by (simp add: store_back_def ra)
      next
        case tr: True
        with True have nn: "map_of (sub_layers c) (the i) \<noteq> None" by simp
        from cont[OF tr] obtain x cas csubs where c: "c = Layer (Container x) cas csubs"
          by (rule is_containerE)
        have ne: "csubs \<noteq> []" using nn by (auto simp: c)
        have mt: "map_of csubs (the i) = Some t"
          using il lc ne tr by (cases rule: index_layer_SomeE) (auto simp: c)
        have isin2: "the i \<in> fst ` set csubs"
          using mt by (metis map_of_eq_None_keys option.distinct(1))
        let ?C1 = "Layer (Container x) cas (truncate_children (the i) id csubs)"
        have c1: "level_fun i id c = ?C1" using tr by (simp add: level_fun_def c map_sub_layers_Layer)
        have ne1: "truncate_children (the i) id csubs \<noteq> []"
          using ne by (metis tc_keys map_is_Nil_conv)
        have pb: "py_bool ?C1 = Inr True"
          using ne1 by (simp add: py_bool_def is_container_def)
        have c3: "truncate_children (the i) (\<lambda>_. ?T) csubs
                  = truncate_children (the i) ?F csubs"
          using mt by (intro tc_cong) simp
        have ri: "replace_item ?C1 (the i) ?T = level_fun i ?F c"
          using isin2 tr c3 by (simp add: replace_item_def tc_set level_fun_def c map_sub_layers_Layer)
        have "truncate_children n (\<lambda>_. level_fun i ?F c) subs
              = truncate_children n (level_fun i ?F) subs"
          using Some by (intro tc_cong) simp
        then show ?thesis
          using tr g1 c1 pb ri by (simp add: store_back_def ra)
      qed
      have ts: "truncate_spec l ((n, i) # plan_of ds)
            = Layer k as (truncate_children n (level_fun i ?F) subs)"
        by (simp add: truncate_spec_Cons l map_sub_layers_Layer del: truncate_spec.simps)
      have la: "located_all l ((n, i) # plan_of ds) = located_all t (plan_of ds)"
      proof (cases "str_truthy i")
        case False
        have "t = c" using il lc False by (cases rule: index_layer_SomeE) auto
        then show ?thesis using False Some by (simp add: l)
      next
        case tr: True
        with True have nn: "map_of (sub_layers c) (the i) \<noteq> None" by simp
        then have ne: "sub_layers c \<noteq> []" by auto
        have "map_of (sub_layers c) (the i) = Some t"
          using il lc ne tr by (cases rule: index_layer_SomeE) auto
        then show ?thesis using tr Some by (simp add: l)
      qed
      show ?thesis
        unfolding pl ts la using si True st ih sb by (simp del: truncate_spec.simps located_all.simps)
    qed
  qed
qed

subsection \<open>The loop of stop\_after and the truncation of the specification\<close>

lemma parse_pattern_str_eq:
  "parse_pattern_str p l = parse_loop (split_on CHR ''.'' p) l []"
  by (simp add: parse_pattern_str_def split_on_nonempty)

lemma parse_pattern_str_nonempty:
  assumes "parse_pattern_str p l = Inr (Some steps)"
  shows "steps \<noteq> []"
proof -
  have "plan_of steps = map parse_segment (split_on CHR ''.'' p)"
    using assms unfolding parse_pattern_str_eq by (rule parse_loop_plan)
  then have "length steps = length (split_on CHR ''.'' p)"
    by (metis length_map plan_of_def)
  then show ?thesis using split_on_nonempty[of "CHR ''.''" p] by auto
qed

lemma stop_after_spec:
  assumes "wf_layer self" and "parse_pattern_str p self = Inr (Some steps)"
  shows "stop_after self p
           = Inr (truncate_spec self (plan_of steps), located_all self (plan_of steps))"
proof -
  have ne: "steps \<noteq> []" using assms(2) by (rule parse_pattern_str_nonempty)
  have "stop_after_loop self steps
          = Inr (truncate_spec self (plan_of steps), located_all self (plan_of steps))"
    using assms unfolding parse_pattern_str_eq by (rule stop_after_loop_spec)
  then show ?thesis using assms(2) ne by (simp add: stop_after_def)
qed

lemma stop_after_TrueE:
  assumes "stop_after self p = Inr (self', True)"
  obtains steps where "parse_pattern_str p self = Inr (Some steps)"
  using assms by (auto simp: stop_after_def split: sum.splits option.splits if_splits)

lemma wf_Identity: "wf_layer Identity"
  by (simp add: Identity_def)

lemma wf_truncate_children:
  "list_all wf_layer (map snd d) \<Longrightarrow> (\<And>c. map_of d n = Some c \<Longrightarrow> wf_layer (f c))
     \<Longrightarrow> list_all wf_layer (map snd (truncate_children n f d))"
proof (induction d)
  case Nil
  then show ?case by simp
next
  case (Cons p d)
  show ?case
  proof (cases "fst p = n")
    case True
    have "wf_layer (f (snd p))" using Cons.prems(2)[of "snd p"] True by simp
    then show ?thesis using True by (simp add: list_all_iff wf_Identity)
  next
    case False
    have "list_all wf_layer (map snd (truncate_children n f d))"
      using Cons.prems False by (intro Cons.IH) auto
    then show ?thesis using False Cons.prems(1) by simp
  qed
qed

lemma wf_level:
  assumes "wf_layer l" and "\<And>c. map_of (sub_layers l) n = Some c \<Longrightarrow> wf_layer (f c)"
  shows "wf_layer (map_sub_layers (truncate_children n f) l)"
proof -
  from wf_is_layer[OF assms(1)] obtain k as subs where l: "l = Layer k as subs"
    by (rule is_layerE)
  have d: "distinct (map fst subs)" and dj: "set (map fst subs) \<inter> set (map fst as) = {}"
    and a: "list_all wf_layer (map snd subs)"
    using assms(1) l by auto
  have "list_all wf_layer (map snd (truncate_children n f subs))"
    using a assms(2)[unfolded l obj.sel] by (rule wf_truncate_children)
  then show ?thesis using d dj by (simp add: l tc_keys map_sub_layers_Layer)
qed

lemma wf_truncate_spec: "wf_layer l \<Longrightarrow> wf_layer (truncate_spec l plan)"
proof (induction plan arbitrary: l)
  case Nil
  then show ?case by simp
next
  case (Cons step rest)
  show ?case
    unfolding truncate_spec_Cons
  proof (rule wf_level[OF Cons.prems])
    fix c assume mc: "map_of (sub_layers l) (fst step) = Some c"
    have wc: "wf_layer c" using Cons.prems mc by (rule wf_layer_child)
    show "wf_layer (level_fun (snd step) (\<lambda>e. truncate_spec e rest) c)"
    proof (cases "str_truthy (snd step)")
      case True
      have "wf_layer (map_sub_layers (truncate_children (the (snd step)) (\<lambda>e. truncate_spec e rest)) c)"
      proof (rule wf_level[OF wc])
        fix e assume "map_of (sub_layers c) (the (snd step)) = Some e"
        then have "wf_layer e" using wc wf_layer_child by blast
        then show "wf_layer (truncate_spec e rest)" by (rule Cons.IH)
      qed
      then show ?thesis using True by (simp add: level_fun_def)
    next
      case False
      then show ?thesis using Cons.IH[OF wc] by (simp add: level_fun_def)
    qed
  qed
qed

lemma sub_layers_level:
  "sub_layers (map_sub_layers (truncate_children n f) l) = truncate_children n f (sub_layers l)"
  by (cases l) (simp_all add: map_sub_layers_def)

lemma map_sub_layers_twice:
  "map_sub_layers f (map_sub_layers g l) = map_sub_layers (\<lambda>d. f (g d)) l"
  by (cases l) (simp_all add: map_sub_layers_def)

lemma located_all_truncate_spec:
  "located_all (truncate_spec l plan) plan = located_all l plan"
proof (induction plan arbitrary: l)
  case Nil
  then show ?case by simp
next
  case (Cons step rest)
  let ?F = "\<lambda>e. truncate_spec e rest"
  show ?case
  proof (cases "map_of (sub_layers l) (fst step)")
    case None
    then show ?thesis
      by (simp add: truncate_spec_Cons sub_layers_level tc_map_of del: truncate_spec.simps)
  next
    case (Some c)
    show ?thesis
    proof (cases "str_truthy (snd step)")
      case False
      then show ?thesis
        using Some Cons.IH[of c]
        by (simp add: truncate_spec_Cons sub_layers_level tc_map_of level_fun_def
              del: truncate_spec.simps)
    next
      case True
      show ?thesis
      proof (cases "map_of (sub_layers c) (the (snd step))")
        case None
        then show ?thesis
          using Some True
          by (simp add: truncate_spec_Cons sub_layers_level level_fun_def tc_map_of
                del: truncate_spec.simps)
      next
        case (Some e)
        then show ?thesis
          using \<open>map_of (sub_layers l) (fst step) = Some c\<close> True Cons.IH[of e]
          by (simp add: truncate_spec_Cons sub_layers_level level_fun_def tc_map_of
                del: truncate_spec.simps)
      qed
    qed
  qed
qed

lemma truncate_spec_idem:
  "truncate_spec (truncate_spec l plan) plan = truncate_spec (l :: 'a obj) plan"
proof (induction plan arbitrary: l)
  case Nil
  then show ?case by simp
next
  case (Cons step rest)
  let ?F = "\<lambda>e :: 'a obj. truncate_spec e rest"
  let ?G = "level_fun (snd step) ?F"
  have FF: "\<And>e. ?F (?F e) = ?F e" using Cons.IH by simp
  have GG: "\<And>c. ?G (?G c) = ?G c"
  proof -
    fix c
    show "?G (?G c) = ?G c"
    proof (cases "str_truthy (snd step)")
      case True
      have "\<And>d. truncate_children (the (snd step)) (\<lambda>e. ?F (?F e)) d
            = truncate_children (the (snd step)) ?F d"
        by (intro tc_cong) (rule FF)
      then show ?thesis using True by (simp add: level_fun_def map_sub_layers_twice tc_tc)
    next
      case False
      then show ?thesis using FF by (simp add: level_fun_def)
    qed
  qed
  have "\<And>d. truncate_children (fst step) (\<lambda>c. ?G (?G c)) d
        = truncate_children (fst step) ?G d"
    by (intro tc_cong) (rule GG)
  then show ?case
    by (simp add: truncate_spec_Cons map_sub_layers_twice tc_tc del: truncate_spec.simps)
qed

lemma parse_loop_truncated:
  "wf_layer (l :: 'a obj) \<Longrightarrow> parse_loop segs l [] = Inr (Some steps)
     \<Longrightarrow> located_all l (plan_of steps)
     \<Longrightarrow> \<exists>steps'. parse_loop segs (truncate_spec l (plan_of steps)) [] = Inr (Some steps')
                  \<and> plan_of steps' = plan_of steps"
proof (induction segs arbitrary: l steps)
  case Nil
  then show ?case by (simp add: plan_of_def)
next
  case (Cons seg segs)
  define n where "n = fst (parse_segment seg)"
  define i where "i = snd (parse_segment seg)"
  from Cons.prems(2) obtain c0 t ds where
    ga: "py_getattr l n = Some c0"
    and il0: "index_layer c0 i = Inr (Some t)"
    and ds: "parse_loop segs t [] = Inr (Some ds)"
    and st: "steps = LayerDict t n i # ds"
    unfolding n_def i_def by (rule parse_loop_ConsE)
  have pl: "plan_of steps = (n, i) # plan_of ds" using st by (simp add: plan_of_def)
  from wf_is_layer[OF Cons.prems(1)] obtain k as subs where l: "l = Layer k as subs"
    by (rule is_layerE)
  have dj: "fst ` set subs \<inter> fst ` set as = {}"
    using Cons.prems(1) unfolding l by auto
  from Cons.prems(3) obtain c where mc: "map_of subs n = Some c"
    unfolding pl by (cases "map_of subs n") (auto simp: l)
  then have isin: "n \<in> fst ` set subs"
    by (metis map_of_eq_None_keys option.distinct(1))
  have na: "n \<notin> fst ` set as" using isin dj by auto
  have "py_getattr l n = Some c" using mc by (simp add: l getattr_sub[OF na])
  then have cc0: "c0 = c" using ga by simp
  have il: "index_layer c i = Inr (Some t)" using il0 cc0 by simp
  have mcl: "map_of (sub_layers l) n = Some c" using mc by (simp add: l)
  have wc: "wf_layer c" using Cons.prems(1) mcl by (rule wf_layer_child)
  have lc: "is_layer c" using wc by (rule wf_is_layer)
  let ?F = "\<lambda>e :: 'a obj. truncate_spec e (plan_of ds)"
  let ?l' = "truncate_spec l ((n, i) # plan_of ds)"
  have l': "?l' = Layer k as (truncate_children n (level_fun i ?F) subs)"
    by (simp add: truncate_spec_Cons l map_sub_layers_Layer del: truncate_spec.simps)
  have ga': "py_getattr ?l' n = Some (level_fun i ?F c)"
    unfolding l' using mc by (simp add: getattr_sub[OF na] tc_map_of)
  have lt: "located_all t (plan_of ds)"
    using il lc
  proof (cases rule: index_layer_SomeE)
    case plain
    then show ?thesis using Cons.prems(3) pl mc by (simp add: l)
  next
    case empty
    then show ?thesis using Cons.prems(3) pl mc by (simp add: l)
  next
    case (indexed k)
    then show ?thesis using Cons.prems(3) pl mc by (simp add: l)
  qed
  have wt: "wf_layer t"
    using il lc
  proof (cases rule: index_layer_SomeE)
    case plain then show ?thesis using wc by simp
  next
    case empty then show ?thesis using wc by simp
  next
    case (indexed k) then show ?thesis using wc wf_layer_child by blast
  qed
  have il': "index_layer (level_fun i ?F c) i = Inr (Some (?F t))"
    using il lc
  proof (cases rule: index_layer_SomeE)
    case plain
    then show ?thesis by (simp add: level_fun_def index_layer_def)
  next
    case empty
    then show ?thesis using Cons.prems(3) pl mc by (simp add: l)
  next
    case (indexed j)
    from indexed(2) obtain x cas csubs where c: "c = Layer (Container x) cas csubs"
      by (rule is_containerE)
    let ?c' = "Layer (Container x) cas (truncate_children (the i) ?F csubs)"
    have a: "level_fun i ?F c = ?c'"
      using indexed(1) by (simp add: level_fun_def c map_sub_layers_Layer)
    have ne: "truncate_children (the i) ?F csubs \<noteq> []"
      using indexed(3) by (metis c obj.sel(5) tc_keys map_is_Nil_conv)
    have len: "length (truncate_children (the i) ?F csubs) = length csubs"
      by (metis tc_keys length_map)
    have m: "map_of (truncate_children (the i) ?F csubs) (the i) = Some (?F t)"
      using indexed(7) by (simp add: tc_map_of c)
    show ?thesis
      unfolding a
      using indexed(1,4,5,6) ne len m
      by (simp add: index_layer_def py_bool_def py_len_def py_getitem_def is_container_def c)
  qed
  from Cons.IH[OF wt ds lt] obtain ds' where
    ds': "parse_loop segs (?F t) [] = Inr (Some ds')" and pds: "plan_of ds' = plan_of ds"
    by blast
  have "parse_loop (seg # segs) ?l' [] = Inr (Some (LayerDict (?F t) n i # ds'))"
    unfolding parse_loop_Cons using ga' il' ds' by (simp add: n_def i_def del: truncate_spec.simps)
  then show ?case
    unfolding pl using pds by (auto simp: plan_of_def)
qed

lemma truncate_children_split:
  "map_of d k = Some c \<Longrightarrow>
   \<exists>pre post. d = pre @ (k, c) # post \<and> k \<notin> fst ` set pre
      \<and> truncate_children k f d = pre @ (k, f c) # map (\<lambda>q. (fst q, Identity)) post"
proof (induction d)
  case Nil
  then show ?case by simp
next
  case (Cons p d)
  show ?case
  proof (cases "fst p = k")
    case True
    then have "p = (k, c)" using Cons.prems by (cases p) simp
    then have "p # d = [] @ (k, c) # d \<and> k \<notin> fst ` set []
        \<and> truncate_children k f (p # d) = [] @ (k, f c) # map (\<lambda>q. (fst q, Identity)) d"
      by simp
    then show ?thesis by blast
  next
    case False
    then have "map_of d k = Some c" using Cons.prems by (cases p) (simp split: if_splits)
    from Cons.IH[OF this] obtain pre post where
      "d = pre @ (k, c) # post" "k \<notin> fst ` set pre"
      "truncate_children k f d = pre @ (k, f c) # map (\<lambda>q. (fst q, Identity)) post"
      by blast
    then have "p # d = (p # pre) @ (k, c) # post \<and> k \<notin> fst ` set (p # pre)
        \<and> truncate_children k f (p # d) = (p # pre) @ (k, f c) # map (\<lambda>q. (fst q, Identity)) post"
      using False by auto
    then show ?thesis by blast
  qed
qed

subsection \<open>The claims about stop\_after\<close>

text \<open>
  C3. \<open>stop_after\<close> does not return \<open>False\<close> on every path whose resolution fails:
  on \<open>small_net\<close> the path \<open>blocks[x]\<close> makes \<open>parse_pattern_str\<close> raise the
  \<open>ValueError\<close> of \<open>int("x")\<close>, nothing in \<open>stop_after\<close> catches it, and the call
  ends with that exception instead of a boolean.
\<close>

theorem stop_after_malformed_path_raises:
  "stop_after small_net ''blocks[x]'' = Inl ValueError"
  by code_simp

text \<open>
  The rest of what is said of the result of \<open>stop_after\<close> holds. When
  \<open>parse_pattern_str\<close> returns \<open>None\<close>, the result is \<open>False\<close> and the graph is as it
  was. When the path resolves on a well-formed graph, \<open>stop_after\<close> returns, its result
  is \<open>True\<close> exactly when every level of the path finds its name and its index among
  the children, and the graph it leaves is truncated level by level as far as the levels
  find their segment (\<open>stop_after_spec\<close>), also when the result is \<open>False\<close>.
\<close>

lemma stop_after_unresolved:
  "parse_pattern_str p self = Inr None \<Longrightarrow> stop_after self p = Inr (self, False)"
  by (simp add: stop_after_def)

text \<open>
  No rollback: on \<open>nested_empty_net\<close> the path \<open>stage.seq[0]\<close> resolves, its first
  level replaces \<open>fc\<close>, its second level replaces \<open>tail\<close> and then does not find the
  index \<open>0\<close> in the empty sequence; the result is \<open>False\<close> and both replacements stay.
  On \<open>theseus_net\<close> the path \<open>conv1.if_act\<close> resolves to an attribute that is not a
  sub-layer: the first level replaces \<open>blocks\<close> and \<open>fc\<close>, the second level does not
  find \<open>if_act\<close> among the sub-layers of \<open>conv1\<close>, and the result is \<open>False\<close>.
\<close>

lemma stop_after_failing_level_keeps_replacements:
  "stop_after nested_empty_net ''stage.seq[0]''
     = Inr (Layer (Plain 0) []
              [(''stage'',
                Layer (Plain 1) [] [(''seq'', Layer (Container 2) [] []), (''tail'', Identity)]),
               (''fc'', Identity)],
            False)"
  by code_simp

lemma stop_after_attribute_level_fails:
  "stop_after theseus_net ''conv1.if_act''
     = Inr (Layer (Plain 0)
              [(''res_dict'', InInstance, empty_dict), (''res_name'', InInstance, py_str 7)]
              [(''conv1'',
                Layer (Plain 1)
                  [(''res_dict'', InInstance, empty_dict),
                   (''res_name'', InInstance, py_str 12),
                   (''if_act'', InInstance, py_True)]
                  [(''conv'', leaf 2), (''bn'', leaf 3)]),
               (''blocks'', Identity),
               (''fc'', Identity)],
            False)"
  by code_simp

text \<open>
  C4. After a successful \<open>stop_after\<close> on a well-formed graph, the path has resolved,
  every level has found its segment, and the graph is the graph truncated along the path
  (\<open>truncate_spec\<close>): at each level the children before the matched name stay as they
  are, the children after it are identity nodes, and within an indexed sequence the
  elements before the matched index stay and those after it are identity nodes; the match
  itself changes only by what the levels below it replace (\<open>truncate_children_split\<close>
  spells \<open>truncate_children\<close> out by position).
\<close>

theorem stop_after_truncates:
  assumes "wf_layer self" and "stop_after self p = Inr (self', True)"
  shows "\<exists>layer_list. parse_pattern_str p self = Inr (Some layer_list)
           \<and> located_all self (plan_of layer_list)
           \<and> self' = truncate_spec self (plan_of layer_list)"
proof -
  from assms(2) obtain steps where ps: "parse_pattern_str p self = Inr (Some steps)"
    by (rule stop_after_TrueE)
  have "stop_after self p
          = Inr (truncate_spec self (plan_of steps), located_all self (plan_of steps))"
    using assms(1) ps by (rule stop_after_spec)
  with assms(2) have "self' = truncate_spec self (plan_of steps)"
    and "located_all self (plan_of steps)" by auto
  with ps show ?thesis by blast
qed

text \<open>
  The witness is the example of the claim: a sequence of five children and the target at
  position 2. The children 3 and 4 become identity nodes, the children 0 to 2 stay, and
  so does \<open>conv1\<close> before \<open>blocks\<close>, while \<open>fc\<close> after it becomes an identity node.
\<close>

theorem stop_after_truncates_witness:
  "wf_layer five_net
   \<and> stop_after five_net ''blocks[2]''
       = Inr (Layer (Plain 0) []
                [(''conv1'', leaf 1),
                 (''blocks'',
                  Layer (Container 2) []
                    [(''0'', leaf 10), (''1'', leaf 11), (''2'', leaf 12),
                     (''3'', Identity), (''4'', Identity)]),
                 (''fc'', Identity)],
              True)
   \<and> (\<exists>layer_list. parse_pattern_str ''blocks[2]'' five_net = Inr (Some layer_list)
         \<and> Layer (Plain 0) []
                [(''conv1'', leaf 1),
                 (''blocks'',
                  Layer (Container 2) []
                    [(''0'', leaf 10), (''1'', leaf 11), (''2'', leaf 12),
                     (''3'', Identity), (''4'', Identity)]),
                 (''fc'', Identity)]
             = truncate_spec five_net (plan_of layer_list))"
proof -
  have w: "wf_layer five_net"
    by code_simp
  have s: "stop_after five_net ''blocks[2]''
      = Inr (Layer (Plain 0) []
               [(''conv1'', leaf 1),
                (''blocks'',
                 Layer (Container 2) []
                   [(''0'', leaf 10), (''1'', leaf 11), (''2'', leaf 12),
                    (''3'', Identity), (''4'', Identity)]),
                (''fc'', Identity)],
             True)"
    by code_simp
  show ?thesis
    using stop_after_truncates [OF w s] w s by blast
qed

text \<open>
  C7. Truncation is idempotent: when \<open>stop_after\<close> succeeds on a well-formed graph, a
  second call with the same path succeeds again and leaves the graph of the first call.
\<close>

theorem stop_after_idempotent:
  assumes "wf_layer self" and "stop_after self p = Inr (self', True)"
  shows "stop_after self' p = Inr (self', True)"
proof -
  from assms(2) obtain steps where ps: "parse_pattern_str p self = Inr (Some steps)"
    by (rule stop_after_TrueE)
  have sa: "stop_after self p = Inr (truncate_spec self (plan_of steps), located_all self (plan_of steps))"
    using assms(1) ps by (rule stop_after_spec)
  with assms(2) have s': "self' = truncate_spec self (plan_of steps)"
    and loc: "located_all self (plan_of steps)" by auto
  from parse_loop_truncated[OF assms(1) ps[unfolded parse_pattern_str_eq] loc] obtain steps' where
    ps': "parse_pattern_str p self' = Inr (Some steps')" and pp: "plan_of steps' = plan_of steps"
    unfolding parse_pattern_str_eq s' by blast
  have w': "wf_layer self'" unfolding s' using assms(1) by (rule wf_truncate_spec)
  have "stop_after self' p = Inr (truncate_spec self' (plan_of steps'), located_all self' (plan_of steps'))"
    using w' ps' by (rule stop_after_spec)
  then show ?thesis
    unfolding pp s' using loc by (simp add: truncate_spec_idem located_all_truncate_spec)
qed

theorem stop_after_idempotent_witness:
  "wf_layer small_net
   \<and> stop_after small_net ''blocks[0].dw_1''
       = Inr (Layer (Plain 0) []
                [(''conv1'', leaf 1),
                 (''blocks'',
                  Layer (Container 2) []
                    [(''0'', Layer (Plain 3) [] [(''pw_1'', leaf 4), (''dw_1'', leaf 5), (''se'', Identity)]),
                     (''1'', Identity),
                     (''2'', Identity)]),
                 (''fc'', Identity)],
              True)
   \<and> stop_after
         (Layer (Plain 0) []
            [(''conv1'', leaf 1),
             (''blocks'',
              Layer (Container 2) []
                [(''0'', Layer (Plain 3) [] [(''pw_1'', leaf 4), (''dw_1'', leaf 5), (''se'', Identity)]),
                 (''1'', Identity),
                 (''2'', Identity)]),
             (''fc'', Identity)])
         ''blocks[0].dw_1''
       = Inr (Layer (Plain 0) []
                [(''conv1'', leaf 1),
                 (''blocks'',
                  Layer (Container 2) []
                    [(''0'', Layer (Plain 3) [] [(''pw_1'', leaf 4), (''dw_1'', leaf 5), (''se'', Identity)]),
                     (''1'', Identity),
                     (''2'', Identity)]),
                 (''fc'', Identity)],
              True)"
proof -
  have w: "wf_layer small_net"
    by code_simp
  have s: "stop_after small_net ''blocks[0].dw_1''
      = Inr (Layer (Plain 0) []
               [(''conv1'', leaf 1),
                (''blocks'',
                 Layer (Container 2) []
                   [(''0'', Layer (Plain 3) [] [(''pw_1'', leaf 4), (''dw_1'', leaf 5), (''se'', Identity)]),
                    (''1'', Identity),
                    (''2'', Identity)]),
                (''fc'', Identity)],
             True)"
    by code_simp
  show ?thesis
    using stop_after_idempotent [OF w s] w s by simp
qed

section \<open>Replacement\<close>

text \<open>
  The two assignments of \<open>upgrade_sublayer\<close>, on a name or key that is there: the
  attribute assignment of a layer to the name of a sub-layer, and the item assignment on a
  sequence at one of its keys, keep the names, their order and their number, and change
  the entry of that name only.
\<close>

lemma length_dict_set:
  "length (dict_set k v d) = (if k \<in> fst ` set d then length d else Suc (length d))"
  by (induction d) auto

lemma py_setitem_container:
  assumes "is_container c" and "py_setitem c key new = Inr c'"
  shows "is_layer new \<and> sub_layers c' = dict_set key new (sub_layers c)"
proof -
  from assms(1) obtain x as subs where c: "c = Layer (Container x) as subs"
    by (rule is_containerE)
  show ?thesis
    using assms(2)
    by (auto simp: c py_setitem_def py_setattr_def is_container_def split: if_splits)
qed

lemma py_setitem_existing_key:
  assumes "is_container c" and "key \<in> fst ` set (sub_layers c)"
    and "py_setitem c key new = Inr c'"
  shows "map fst (sub_layers c') = map fst (sub_layers c)
         \<and> length (sub_layers c') = length (sub_layers c)
         \<and> map_of (sub_layers c') = (map_of (sub_layers c))(key \<mapsto> new)"
  using py_setitem_container[OF assms(1,3)] assms(2)
  by (simp add: keys_dict_set length_dict_set map_of_dict_set)

lemma py_setattr_child:
  assumes "is_layer l" and "is_layer new" and "py_setattr l key new = Inr l'"
  shows "sub_layers l' = dict_set key new (sub_layers l)"
proof -
  from assms(1) obtain k as subs where l: "l = Layer k as subs" by (rule is_layerE)
  show ?thesis
    using assms(2,3) by (auto simp: l py_setattr_def split: if_splits)
qed

lemma py_setattr_existing_child:
  assumes "is_layer l" and "is_layer new" and "key \<in> fst ` set (sub_layers l)"
    and "py_setattr l key new = Inr l'"
  shows "map fst (sub_layers l') = map fst (sub_layers l)
         \<and> map_of (sub_layers l') = (map_of (sub_layers l))(key \<mapsto> new)"
  using py_setattr_child[OF assms(1,2,4)] assms(3)
  by (simp add: keys_dict_set map_of_dict_set)

text \<open>An item assignment at a key that is not there makes the sequence one longer.\<close>

lemma py_setitem_new_key:
  assumes "is_container c" and "key \<notin> fst ` set (sub_layers c)"
    and "py_setitem c key new = Inr c'"
  shows "length (sub_layers c') = Suc (length (sub_layers c))"
  using py_setitem_container[OF assms(1,3)] assms(2)
  by (simp add: length_dict_set)

text \<open>
  On \<open>small_net\<close>, with a list of patterns: the element \<open>1\<close> of \<open>blocks\<close> and the
  child \<open>fc\<close> are replaced, the pattern \<open>nothing\<close> is skipped, every other child is the
  one it was, at its place, and the sequence keeps its three keys. With one pattern of two
  levels, the child \<open>dw_1\<close> of the first block is replaced between its two siblings.
\<close>

lemma upgrade_sublayer_list_example:
  "upgrade_sublayer small_net (Many [''blocks[1]'', ''nothing'', ''fc'']) (\<lambda>l p. leaf 100)
     = Inr (Layer (Plain 0) []
              [(''conv1'', leaf 1),
               (''blocks'',
                Layer (Container 2) []
                  [(''0'', Layer (Plain 3) [] [(''pw_1'', leaf 4), (''dw_1'', leaf 5), (''se'', leaf 6)]),
                   (''1'', leaf 100),
                   (''2'', leaf 8)]),
               (''fc'', leaf 100)],
            [''blocks[1]'', ''fc''])"
  by code_simp

lemma upgrade_sublayer_nested_example:
  "upgrade_sublayer small_net (One ''blocks[0].dw_1'') (\<lambda>l p. leaf 100)
     = Inr (Layer (Plain 0) []
              [(''conv1'', leaf 1),
               (''blocks'',
                Layer (Container 2) []
                  [(''0'', Layer (Plain 3) [] [(''pw_1'', leaf 4), (''dw_1'', leaf 100), (''se'', leaf 6)]),
                   (''1'', leaf 7),
                   (''2'', leaf 8)]),
               (''fc'', leaf 9)],
            [''blocks[0].dw_1''])"
  by code_simp

text \<open>
  C6. Replacing an indexed child does not always leave the length of the sequence as it
  was: on \<open>empty_blocks_net\<close> the sequence \<open>blocks\<close> has length 0, the list of patterns
  \<open>["blocks[0]"]\<close> is reported as applied, and after the call the sequence has length 1.
\<close>

theorem upgrade_sublayer_indexed_changes_length:
  "map_option py_len (py_getattr empty_blocks_net ''blocks'') = Some (Inr 0)
   \<and> map_sum id (\<lambda>r. (map_option py_len (py_getattr (fst r) ''blocks''), snd r))
         (upgrade_sublayer empty_blocks_net (Many [''blocks[0]'']) (\<lambda>l p. leaf 100))
       = Inr (Some (Inr 1), [''blocks[0]''])"
  by code_simp

text \<open>
  A name that resolves to an attribute which is not a sub-layer is assigned as well: on
  \<open>theseus_net\<close> the pattern \<open>res_dict\<close> resolves to the dictionary, the call takes it
  out of the attributes of the instance, and the root has one more child name,
  \<open>res_dict\<close>, after \<open>fc\<close>.
\<close>

lemma upgrade_sublayer_attribute_adds_child:
  "upgrade_sublayer theseus_net (One ''res_dict'') (\<lambda>l p. leaf 100)
     = Inr (Layer (Plain 0)
              [(''res_name'', InInstance, py_str 7)]
              [(''conv1'',
                Layer (Plain 1)
                  [(''res_dict'', InInstance, empty_dict),
                   (''res_name'', InInstance, py_str 12),
                   (''if_act'', InInstance, py_True)]
                  [(''conv'', leaf 2), (''bn'', leaf 3)]),
               (''blocks'', Layer (Container 4) [] [(''0'', leaf 5), (''1'', leaf 6)]),
               (''fc'', leaf 7),
               (''res_dict'', leaf 100)],
            [''res_dict''])"
  by code_simp

section \<open>The capture buffer\<close>

lemma dict_set_keys: "fst ` set (dict_set k v d) = insert k (fst ` set d)"
  by (induction d) auto

lemma distinct_dict_set: "distinct (map fst d) \<Longrightarrow> distinct (map fst (dict_set k v d))"
  by (induction d) (auto simp: dict_set_keys)

lemma filter_other_keys:
  "k \<notin> fst ` set d \<Longrightarrow> filter (\<lambda>q. fst q \<noteq> k) d = d"
  by (induction d) auto

lemma dict_pop_head:
  "fst p \<notin> fst ` set d \<Longrightarrow> dict_pop (fst p) (p # d) = Inr (snd p, d)"
  by (simp add: dict_pop_def filter_other_keys)

lemma return_dict_loop_all:
  "distinct (map fst d) \<Longrightarrow>
   return_dict_loop (map fst d) res d = Inr (fold (\<lambda>p. dict_set (fst p) (snd p)) d res, [])"
proof (induction d arbitrary: res)
  case Nil
  then show ?case by simp
next
  case (Cons p d)
  have n: "fst p \<notin> fst ` set d" and dd: "distinct (map fst d)" using Cons.prems by auto
  show ?case using dict_pop_head[OF n] Cons.IH[OF dd] by simp
qed

lemma map_of_fold_dict_set:
  "map_of (fold (\<lambda>p. dict_set (fst p) (snd p)) xs d) = map_of d ++ map_of (rev xs)"
proof (induction xs arbitrary: d)
  case Nil
  then show ?case by simp
next
  case (Cons x xs)
  have "map_of (dict_set (fst x) (snd x) d) ++ map_of (rev xs)
        = map_of d ++ (map_of [x] ++ map_of (rev xs))"
    by (cases x) (simp add: map_of_dict_set fun_eq_iff map_add_def split: option.splits)
  then show ?case using Cons.IH by simp
qed

lemma map_of_rev_distinct:
  assumes "distinct (map fst xs)"
  shows "map_of (rev xs) = map_of xs"
proof -
  have "distinct (map fst (rev xs))" using assms by (simp add: rev_map[symmetric])
  then show ?thesis using assms map_of_inject_set[of "rev xs" xs] by simp
qed

lemma keys_fold_dict_set:
  "fst ` set (fold (\<lambda>p. dict_set (fst p) (snd p)) xs d) = fst ` set d \<union> fst ` set xs"
  by (induction xs arbitrary: d) (auto simp: dict_set_keys)

lemma distinct_fold_dict_set:
  "distinct (map fst d) \<Longrightarrow> distinct (map fst (fold (\<lambda>p. dict_set (fst p) (snd p)) xs d))"
  by (induction xs arbitrary: d) (auto simp: distinct_dict_set)

lemma save_fold:
  "fold (\<lambda>c. save_sub_res_hook (fst c) (snd c)) captures d
     = fold (\<lambda>p. dict_set (fst p) (snd p)) captures d"
  by (simp add: save_sub_res_hook_def[abs_def])

lemma forward_pass_eq:
  assumes "distinct (map fst d)"
  shows "forward_pass captures output d
     = Inr (fold (\<lambda>p. dict_set (fst p) (snd p))
              (fold (\<lambda>p. dict_set (fst p) (snd p)) captures d) [(''output'', output)], [])"
  using return_dict_loop_all[OF distinct_fold_dict_set[OF assms, of captures]]
  by (simp add: forward_pass_def return_dict_hook_def save_fold)

text \<open>
  C8. Two forward passes in a row, from a capture buffer with distinct keys: both return,
  and each leaves the buffer empty. The result of the second pass is the result of a pass
  that starts with an empty buffer: its keys are \<open>output\<close> and the names captured
  during the second pass, so no key of the first pass is carried over. Each result holds
  the captured entries (the last value captured under a name) over the entry of the root's
  output under \<open>output\<close>; a layer whose \<open>res_name\<close> is itself \<open>output\<close> takes that
  place.
\<close>

theorem capture_state_reset:
  assumes "distinct (map fst self_res_dict)"
  shows "\<exists>res1 res2.
           two_passes captures1 output1 captures2 output2 self_res_dict = Inr (res1, res2, [])
         \<and> forward_pass captures2 output2 [] = Inr (res2, [])
         \<and> fst ` set res2 = insert ''output'' (fst ` set captures2)
         \<and> map_of res2 = [''output'' \<mapsto> output2] ++ map_of (rev captures2)
         \<and> fst ` set res1 = insert ''output'' (fst ` set self_res_dict \<union> fst ` set captures1)
         \<and> map_of res1 = [''output'' \<mapsto> output1] ++ map_of self_res_dict ++ map_of (rev captures1)"
proof -
  let ?set = "\<lambda>p :: string \<times> 'a. dict_set (fst p) (snd p)"
  let ?b1 = "fold ?set captures1 self_res_dict"
  let ?r1 = "fold ?set ?b1 [(''output'', output1)]"
  let ?b2 = "fold ?set captures2 []"
  let ?r2 = "fold ?set ?b2 [(''output'', output2)]"
  have f1: "forward_pass captures1 output1 self_res_dict = Inr (?r1, [])"
    using assms by (rule forward_pass_eq)
  have f2: "forward_pass captures2 output2 [] = Inr (?r2, [])"
    by (rule forward_pass_eq) simp
  have t: "two_passes captures1 output1 captures2 output2 self_res_dict = Inr (?r1, ?r2, [])"
    using f1 f2 by (simp add: two_passes_def)
  have k2: "fst ` set ?r2 = insert ''output'' (fst ` set captures2)"
    by (simp add: keys_fold_dict_set)
  have m2: "map_of ?r2 = [''output'' \<mapsto> output2] ++ map_of (rev captures2)"
  proof -
    have d: "distinct (map fst ?b2)" by (rule distinct_fold_dict_set) simp
    have "map_of (rev ?b2) = map_of ?b2"
      using d by (rule map_of_rev_distinct)
    then show ?thesis by (simp add: map_of_fold_dict_set)
  qed
  have k1: "fst ` set ?r1 = insert ''output'' (fst ` set self_res_dict \<union> fst ` set captures1)"
    by (simp add: keys_fold_dict_set)
  have m1: "map_of ?r1 = [''output'' \<mapsto> output1] ++ map_of self_res_dict ++ map_of (rev captures1)"
  proof -
    have d: "distinct (map fst ?b1)" using assms by (rule distinct_fold_dict_set)
    have "map_of (rev ?b1) = map_of ?b1"
      using d by (rule map_of_rev_distinct)
    then show ?thesis by (simp add: map_of_fold_dict_set)
  qed
  show ?thesis using t f2 k2 m2 k1 m1 by blast
qed

theorem capture_state_reset_witness:
  "distinct (map fst ([] :: (string \<times> nat) list))
   \<and> two_passes [(''blocks[2]'', 10), (''blocks[9]'', 20)] 1 [(''blocks[2]'', 30)] 2 []
       = Inr ([(''output'', 1), (''blocks[2]'', 10), (''blocks[9]'', 20)],
              [(''output'', 2), (''blocks[2]'', 30 :: nat)],
              [])"
proof -
  have d: "distinct (map fst ([] :: (string \<times> nat) list))"
    by simp
  have e: "two_passes [(''blocks[2]'', 10), (''blocks[9]'', 20)] 1 [(''blocks[2]'', 30)] 2 []
       = Inr ([(''output'', 1), (''blocks[2]'', 10), (''blocks[9]'', 20)],
              [(''output'', 2), (''blocks[2]'', 30 :: nat)],
              [])"
    by code_simp
  show ?thesis
    using capture_state_reset [OF d, of "[(''blocks[2]'', 10), (''blocks[9]'', 20)]" 1
        "[(''blocks[2]'', 30)]" 2] e
    by simp
qed

section \<open>The command-line entry points\<close>

text \<open>
  C9. Called with neither images nor paths, \<open>style_transfer\<close> prints its message, writes
  nothing, raises nothing and returns \<open>None\<close>, not a list of results.
\<close>

theorem style_transfer_no_input:
  "style_transfer run imread flip None None visualization
     = Inr ([''No image provided. Please input an image or a image path.''], [], None)"
  by (simp add: style_transfer_def)

lemma py_format_two_placeholders:
  "py_format ''File %s or %s is not exist.'' [image_path] = Inl TypeError"
  by simp

lemma check_paths_missing:
  "image_path \<in> set input_data \<Longrightarrow> \<not> path_exists image_path
     \<Longrightarrow> check_paths path_exists input_data = Some TypeError"
  by (induction input_data) (auto simp del: py_format.simps simp add: py_format_two_placeholders)

lemma check_paths_result:
  "check_paths path_exists input_data = Some e \<Longrightarrow> e = TypeError"
  by (induction input_data)
     (auto simp del: py_format.simps simp add: py_format_two_placeholders split: if_splits)

text \<open>
  C10. When the input data of \<open>run_cmd\<close> holds a path that does not exist, \<open>run_cmd\<close>
  ends in the \<open>TypeError\<close> of the string formatting (two \<open>%s\<close>, one argument), and
  the check of the paths never ends in a \<open>RuntimeError\<close>, whatever the paths are.
\<close>

theorem run_cmd_missing_file_type_error:
  assumes "check_input_data path_exists txt_parse args = Inr input_data"
    and "image_path \<in> set input_data"
    and "\<not> path_exists image_path"
  shows "run_cmd path_exists txt_parse classification args = Inl TypeError
         \<and> (\<forall>msg. check_paths path_exists input_data \<noteq> Some (RuntimeError msg))"
proof -
  have ne: "length input_data \<noteq> 0"
    using assms(2) by auto
  have cp: "check_paths path_exists input_data = Some TypeError"
    using assms(2,3) by (rule check_paths_missing)
  show ?thesis
    using assms(1) ne cp by (simp add: run_cmd_def)
qed

theorem run_cmd_missing_file_type_error_witness:
  "run_cmd (\<lambda>p. False) (\<lambda>f. []) (\<lambda>paths gpu batch. length paths) example_args = Inl TypeError"
proof -
  have a: "check_input_data (\<lambda>p. False) (\<lambda>f. []) example_args = Inr [''missing.jpg'']"
    by (simp add: check_input_data_def example_args_def str_truthy_def)
  have b: "''missing.jpg'' \<in> set [''missing.jpg'']"
    by simp
  show ?thesis
    using run_cmd_missing_file_type_error [OF a b, of "\<lambda>paths gpu batch. length paths"] by simp
qed

end
